theory Spec2Isabelle
  imports Complex_Main "HOL-Library.Sublist"
begin

section \<open>The batched SOAP submission pipeline of server.js\<close>

text \<open>
  The development embeds the three pieces of \<^verbatim>\<open>src/server/server.js\<close> that carry the
  pipeline: \<^verbatim>\<open>buildSoapEnvelope\<close>, \<^verbatim>\<open>chunkArray\<close> and the handler of
  \<^verbatim>\<open>POST /api/send-soap\<close>. The remote service and the XML parser are parameters of the
  handler; what the handler sends and how long it sleeps is returned as a trace.
\<close>

subsection \<open>JavaScript strings and \<^verbatim>\<open>String.prototype.trim\<close>\<close>

text \<open>
  A string is the UTF-8 text of the JavaScript string. \<^verbatim>\<open>trim\<close> removes WhiteSpace and
  LineTerminator code points from both ends: TAB, LF, VT, FF, CR, SP, U+00A0, U+1680,
  U+2000 to U+200A, U+2028, U+2029, U+202F, U+205F, U+3000 and U+FEFF, listed here in
  their UTF-8 encodings.
\<close>

definition whiteSpace :: "string list" where
  "whiteSpace =
     [[CHR 0x09], [CHR 0x0A], [CHR 0x0B], [CHR 0x0C], [CHR 0x0D], [CHR 0x20],
      [CHR 0xC2, CHR 0xA0],
      [CHR 0xE1, CHR 0x9A, CHR 0x80],
      [CHR 0xE2, CHR 0x80, CHR 0x80], [CHR 0xE2, CHR 0x80, CHR 0x81],
      [CHR 0xE2, CHR 0x80, CHR 0x82], [CHR 0xE2, CHR 0x80, CHR 0x83],
      [CHR 0xE2, CHR 0x80, CHR 0x84], [CHR 0xE2, CHR 0x80, CHR 0x85],
      [CHR 0xE2, CHR 0x80, CHR 0x86], [CHR 0xE2, CHR 0x80, CHR 0x87],
      [CHR 0xE2, CHR 0x80, CHR 0x88], [CHR 0xE2, CHR 0x80, CHR 0x89],
      [CHR 0xE2, CHR 0x80, CHR 0x8A],
      [CHR 0xE2, CHR 0x80, CHR 0xA8], [CHR 0xE2, CHR 0x80, CHR 0xA9],
      [CHR 0xE2, CHR 0x80, CHR 0xAF],
      [CHR 0xE2, CHR 0x81, CHR 0x9F],
      [CHR 0xE3, CHR 0x80, CHR 0x80],
      [CHR 0xEF, CHR 0xBB, CHR 0xBF]]"

function trimStart :: "string \<Rightarrow> string" where
  "trimStart s =
     (case find (\<lambda>w. prefix w s) whiteSpace of
        None \<Rightarrow> s
      | Some w \<Rightarrow> trimStart (drop (length w) s))"
  by pat_completeness auto
termination
proof (relation "measure length")
  show "wf (measure (length :: string \<Rightarrow> nat))" by simp
next
  fix s w :: string
  assume "find (\<lambda>w. prefix w s) whiteSpace = Some w"
  then have mem: "w \<in> set whiteSpace" and pre: "prefix w s"
    by (auto simp: find_Some_iff)
  from mem have "w \<noteq> []" by (auto simp: whiteSpace_def)
  from pre have "length w \<le> length s" by (rule prefix_length_le)
  with \<open>w \<noteq> []\<close> show "(drop (length w) s, s) \<in> measure length"
    by (cases w) auto
qed

function trimEnd :: "string \<Rightarrow> string" where
  "trimEnd s =
     (case find (\<lambda>w. suffix w s) whiteSpace of
        None \<Rightarrow> s
      | Some w \<Rightarrow> trimEnd (take (length s - length w) s))"
  by pat_completeness auto
termination
proof (relation "measure length")
  show "wf (measure (length :: string \<Rightarrow> nat))" by simp
next
  fix s w :: string
  assume "find (\<lambda>w. suffix w s) whiteSpace = Some w"
  then have mem: "w \<in> set whiteSpace" and suf: "suffix w s"
    by (auto simp: find_Some_iff)
  from mem have "w \<noteq> []" by (auto simp: whiteSpace_def)
  from suf have "length w \<le> length s" by (rule suffix_length_le)
  with \<open>w \<noteq> []\<close> show "(take (length s - length w) s, s) \<in> measure length"
    by (cases w) auto
qed

declare trimStart.simps [simp del] trimEnd.simps [simp del]

definition trim :: "string \<Rightarrow> string" where
  "trim s = trimEnd (trimStart s)"

text \<open>The decimal rendering of a number inside a template literal.\<close>

fun decimal :: "nat \<Rightarrow> string" where
  "decimal n =
     (if n < 10 then [''0123456789'' ! n]
      else decimal (n div 10) @ [''0123456789'' ! (n mod 10)])"

declare decimal.simps [simp del]

subsection \<open>Rows and thrown errors\<close>

text \<open>
  A row is one object of the posted \<^verbatim>\<open>data\<close> array: a dictionary from column names to
  JSON values. Only strings have a \<^verbatim>\<open>trim\<close> method. Reading a property of \<^verbatim>\<open>null\<close>
  throws, and so does calling \<^verbatim>\<open>trim\<close> on a number, a boolean, an array or an object,
  which are one constructor. A key that is not in the dictionary reads as
  \<^verbatim>\<open>undefined\<close>. The elements of \<^verbatim>\<open>data\<close> are taken to be objects, as the CSV parser
  of the client makes them.
\<close>

datatype jsValue = JString string | JNull | JOther

type_synonym row = "string \<rightharpoonup> jsValue"

text \<open>
  What the catch block reads of a thrown error: \<^verbatim>\<open>name\<close>, \<^verbatim>\<open>code\<close> (absent on most
  errors) and \<^verbatim>\<open>message\<close>.
\<close>

record jsError =
  name :: string
  code :: "string option"
  message :: string

text \<open>
  Calling \<^verbatim>\<open>.trim()\<close> on \<^verbatim>\<open>undefined\<close>, on \<^verbatim>\<open>null\<close> or on a value without that
  method throws a TypeError. Its message is the engine's text (here V8's wording); a
  TypeError has no \<^verbatim>\<open>code\<close>.
\<close>

definition typeError :: "string \<Rightarrow> jsError" where
  "typeError msg = \<lparr>name = ''TypeError'', code = None, message = msg\<rparr>"

definition trimField :: "row \<Rightarrow> string \<Rightarrow> jsError + string" where
  "trimField r key =
     (case r key of
        None \<Rightarrow> Inl (typeError ''Cannot read properties of undefined (reading 'trim')'')
      | Some JNull \<Rightarrow> Inl (typeError ''Cannot read properties of null (reading 'trim')'')
      | Some JOther \<Rightarrow> Inl (typeError (''row.'' @ key @ ''.trim is not a function''))
      | Some (JString s) \<Rightarrow> Inr (trim s))"

subsection \<open>\<^verbatim>\<open>buildSoapEnvelope\<close>\<close>

text \<open>
  The arrow function of the \<^verbatim>\<open>map\<close> call: one \<^verbatim>\<open>DeleteEnvelopeRequest\<close> element. The
  template evaluates \<^verbatim>\<open>row["EnvelopeId"].trim()\<close> before \<^verbatim>\<open>row["AuthToken"].trim()\<close>;
  \<open>element\<close> is the text of the template once the three values are there.
\<close>

definition element :: "string \<Rightarrow> string \<Rightarrow> string \<Rightarrow> string" where
  \<open>element contextId envelopeId authToken =
     ''<DeleteEnvelopeRequest ContextIdentifier="'' @ contextId
     @ ''" EnvelopeId="'' @ envelopeId
     @ ''" EnvelopeAuthToken="'' @ authToken @ ''" />''\<close>

definition requestElement :: "string \<Rightarrow> row \<Rightarrow> jsError + string" where
  "requestElement contextId r =
     (case trimField r ''EnvelopeId'' of
        Inl e \<Rightarrow> Inl e
      | Inr envelopeId \<Rightarrow>
          (case trimField r ''AuthToken'' of
             Inl e \<Rightarrow> Inl e
           | Inr authToken \<Rightarrow> Inr (element contextId envelopeId authToken)))"

text \<open>\<^verbatim>\<open>Array.prototype.map\<close> with a callback that may throw: the first throw ends it.\<close>

fun mapRows :: "(row \<Rightarrow> jsError + string) \<Rightarrow> row list \<Rightarrow> jsError + string list" where
  "mapRows f [] = Inr []"
| "mapRows f (r # rs) =
     (case f r of
        Inl e \<Rightarrow> Inl e
      | Inr x \<Rightarrow> (case mapRows f rs of Inl e \<Rightarrow> Inl e | Inr xs \<Rightarrow> Inr (x # xs)))"

definition envelopeHead :: string where
  \<open>envelopeHead =
     ''<?xml version="1.0" encoding="utf-8"?>'' @ [CHR 0x0A]
     @ ''<s:Envelope xmlns:s="http://schemas.xmlsoap.org/soap/envelope/">'' @ [CHR 0x0A]
     @ ''  <s:Body xmlns:xsi="http://www.w3.org/2001/XMLSchema-instance" xmlns:xsd="http://www.w3.org/2001/XMLSchema">'' @ [CHR 0x0A]
     @ ''    <DeleteEnvelope xmlns="https://www.assuresign.net/Services/DocumentNOW/Envelopes">'' @ [CHR 0x0A]
     @ ''      <Requests>'' @ [CHR 0x0A]
     @ ''        ''\<close>

definition envelopeTail :: string where
  \<open>envelopeTail =
     [CHR 0x0A] @ ''      </Requests>'' @ [CHR 0x0A]
     @ ''    </DeleteEnvelope>'' @ [CHR 0x0A]
     @ ''  </s:Body>'' @ [CHR 0x0A]
     @ ''</s:Envelope>''\<close>

definition buildSoapEnvelope :: "row list \<Rightarrow> string \<Rightarrow> jsError + string" where
  "buildSoapEnvelope data contextId =
     (case mapRows (requestElement contextId) data of
        Inl e \<Rightarrow> Inl e
      | Inr elements \<Rightarrow> Inr (envelopeHead @ concat elements @ envelopeTail))"

subsection \<open>\<^verbatim>\<open>chunkArray\<close>\<close>

text \<open>
  \<^verbatim>\<open>Array.prototype.slice(start, end)\<close>: a negative index counts from the end, and both
  indices are clamped to the array.
\<close>

definition slice :: "'a list \<Rightarrow> int \<Rightarrow> int \<Rightarrow> 'a list" where
  "slice arr start fin =
     (let n = int (length arr);
          k = (if start < 0 then max (n + start) 0 else min start n);
          final = (if fin < 0 then max (n + fin) 0 else min fin n)
      in take (nat (final - k)) (drop (nat k) arr))"

text \<open>
  The \<^verbatim>\<open>for\<close> loop of \<^verbatim>\<open>chunkArray\<close>, with the counter \<open>i\<close> and the array \<open>chunks\<close>
  built so far. Nothing in the source bounds the number of iterations, so the loop is a
  partial function: \<open>None\<close> is a call that does not return.
\<close>

partial_function (option) chunkArray_loop ::
  "'a list \<Rightarrow> int \<Rightarrow> int \<Rightarrow> 'a list list \<Rightarrow> 'a list list option" where
  "chunkArray_loop arr sz i chunks =
     (if i < int (length arr)
      then chunkArray_loop arr sz (i + sz) (chunks @ [slice arr i (i + sz)])
      else Some chunks)"

definition chunkArray :: "'a list \<Rightarrow> int \<Rightarrow> 'a list list option" where
  "chunkArray arr sz = chunkArray_loop arr sz 0 []"

subsection \<open>The world of the handler\<close>

text \<open>
  What \<^verbatim>\<open>fetch\<close> gives back: the promise rejects with an error, or resolves with a
  response. Of a response the handler reads \<^verbatim>\<open>status\<close>, \<^verbatim>\<open>statusText\<close>, \<^verbatim>\<open>ok\<close> and
  \<^verbatim>\<open>text()\<close>, which may itself reject (\<open>Inl\<close> of the error's message).
\<close>

record httpResponse =
  responseStatus :: nat
  statusText :: string
  responseText :: "string + string"

definition ok :: "httpResponse \<Rightarrow> bool" where
  "ok response = (200 \<le> responseStatus response \<and> responseStatus response \<le> 299)"

datatype fetchOutcome = Rejects jsError | Resolves httpResponse

text \<open>
  The remote service is a function from the loop index of the batch and the request
  body to the outcome of that call. The parser \<^verbatim>\<open>parseStringPromise\<close> either rejects
  (\<open>Inl\<close> of the message) or resolves with a value, \<open>None\<close> being \<^verbatim>\<open>null\<close>.
\<close>

type_synonym remote = "nat \<Rightarrow> string \<Rightarrow> fetchOutcome"

type_synonym 'p xmlParser = "string \<Rightarrow> string + 'p option"

text \<open>The observable effects of a run, in order: requests sent and pauses taken.\<close>

datatype event = Fetch nat string | Sleep nat

subsection \<open>Batch results, the summary and the replies\<close>

text \<open>
  The \<^verbatim>\<open>status\<close> of a pushed entry is the response's status code, or the string
  \<^verbatim>\<open>'error'\<close>.
\<close>

datatype statusField = StatusCode nat | StatusError

datatype 'p batchResult =
    Succeeded (batch: nat) (status: statusField) (rawResponse: string)
      (parsedResponse: "'p option") (itemCount: nat) (success: bool)
  | Failed (batch: nat) (status: statusField) (error: string)
      (itemCount: nat) (success: bool)

record 'p runSummary =
  overallSuccess :: bool
  totalBatches :: nat
  totalItems :: nat
  successfulBatches :: nat
  results :: "'p batchResult list"

text \<open>
  The JSON bodies the handler sends: an error object with \<^verbatim>\<open>error\<close> and, on the
  per-batch exits, \<^verbatim>\<open>details\<close> and \<^verbatim>\<open>batch\<close>; or the summary. A reply is the HTTP status
  with the body.
\<close>

datatype 'p replyBody =
    ErrorBody string "string option" "nat option"
  | SummaryBody "'p runSummary"

type_synonym 'p reply = "nat \<times> 'p replyBody"

text \<open>One iteration of the loop either leaves the handler with a reply or pushes an entry.\<close>

datatype 'p step = Return "'p reply" | Push "'p batchResult"

subsection \<open>The handler of \<^verbatim>\<open>POST /api/send-soap\<close>\<close>

text \<open>
  The inner \<^verbatim>\<open>try\<close> block for loop index \<open>i\<close>. It ends with a thrown error (\<open>Inl\<close>),
  with a \<^verbatim>\<open>return\<close> or with a push; the events it caused come with it.
\<close>

definition tryBatch ::
  "remote \<Rightarrow> 'p xmlParser \<Rightarrow> row list list \<Rightarrow> string \<Rightarrow> nat \<Rightarrow> event list \<times> (jsError + 'p step)" where
  "tryBatch fetch parser chunks contextId i =
     (case buildSoapEnvelope (chunks ! i) contextId of
        Inl e \<Rightarrow> ([], Inl e)
      | Inr xmlBody \<Rightarrow>
          (case fetch i xmlBody of
             Rejects e \<Rightarrow> ([Fetch i xmlBody], Inl e)
           | Resolves response \<Rightarrow>
               if \<not> ok response then
                 let errorText =
                   (case responseText response of
                      Inl m \<Rightarrow> ''Could not read error response: '' @ m
                    | Inr t \<Rightarrow> t)
                 in ([Fetch i xmlBody],
                     Inr (Return (responseStatus response,
                       ErrorBody (''SOAP service returned '' @ decimal (responseStatus response)
                                  @ '': '' @ statusText response)
                         (Some errorText) (Some (i + 1)))))
               else
                 (case responseText response of
                    Inl m \<Rightarrow>
                      ([Fetch i xmlBody],
                       Inr (Return (500,
                         ErrorBody ''Failed to read SOAP response'' (Some m) (Some (i + 1)))))
                  | Inr text \<Rightarrow>
                      let parsed = (case parser text of Inl m \<Rightarrow> None | Inr v \<Rightarrow> v)
                      in (Fetch i xmlBody
                            # (if int i < int (length chunks) - 1 then [Sleep 10000] else []),
                          Inr (Push (Succeeded (i + 1) (StatusCode (responseStatus response))
                                       text parsed (length (chunks ! i)) True))))))"

text \<open>The \<^verbatim>\<open>catch (batchError)\<close> block.\<close>

definition catchBatch :: "row list list \<Rightarrow> nat \<Rightarrow> jsError \<Rightarrow> 'p step" where
  "catchBatch chunks i batchError =
     (if name batchError = ''AbortError'' then
        Return (408, ErrorBody ''Request timeout''
          (Some (''Batch '' @ decimal (i + 1) @ '' timed out after 30 seconds'')) (Some (i + 1)))
      else if code batchError = Some ''ENOTFOUND'' \<or> code batchError = Some ''ECONNREFUSED'' then
        Return (503, ErrorBody ''Service unavailable''
          (Some (''Cannot connect to SOAP service: '' @ message batchError)) (Some (i + 1)))
      else
        Push (Failed (i + 1) StatusError (message batchError) (length (chunks ! i)) False))"

definition processBatch ::
  "remote \<Rightarrow> 'p xmlParser \<Rightarrow> row list list \<Rightarrow> string \<Rightarrow> nat \<Rightarrow> event list \<times> 'p step" where
  "processBatch fetch parser chunks contextId i =
     (case tryBatch fetch parser chunks contextId i of
        (evs, Inl batchError) \<Rightarrow> (evs, catchBatch chunks i batchError)
      | (evs, Inr st) \<Rightarrow> (evs, st))"

text \<open>
  The \<^verbatim>\<open>for\<close> loop over the chunks, with the array \<^verbatim>\<open>responses\<close> and the trace so
  far. \<open>Inl\<close> is a \<^verbatim>\<open>return\<close> from inside the loop, \<open>Inr\<close> the array once the loop is over.
\<close>

function batchLoop ::
  "remote \<Rightarrow> 'p xmlParser \<Rightarrow> row list list \<Rightarrow> string \<Rightarrow> nat \<Rightarrow> 'p batchResult list \<Rightarrow> event list
     \<Rightarrow> ('p reply + 'p batchResult list) \<times> event list" where
  "batchLoop fetch parser chunks contextId i responses trace =
     (if i < length chunks then
        (case processBatch fetch parser chunks contextId i of
           (evs, Return r) \<Rightarrow> (Inl r, trace @ evs)
         | (evs, Push b) \<Rightarrow>
             batchLoop fetch parser chunks contextId (i + 1) (responses @ [b]) (trace @ evs))
      else (Inr responses, trace))"
  by pat_completeness auto
termination
  by (relation "measure (\<lambda>(fetch, parser, chunks, contextId, i, responses, trace). length chunks - i)")
    auto

declare batchLoop.simps [simp del]

text \<open>
  The posted JSON body, as far as the handler looks at it: \<^verbatim>\<open>data\<close> is \<open>None\<close> when it is
  missing or not an array, \<^verbatim>\<open>contextId\<close> is \<open>None\<close> when it is missing. A context
  identifier is a string; the empty string is falsy.
\<close>

record requestBody =
  data :: "row list option"
  contextId :: "string option"

text \<open>
  The handler. The result is \<open>None\<close> when \<^verbatim>\<open>chunkArray\<close> does not return; otherwise it is
  the reply and the trace. The outer \<^verbatim>\<open>catch\<close> is not reached: every throw of the model
  is inside the inner \<^verbatim>\<open>try\<close>.
\<close>

definition handler ::
  "remote \<Rightarrow> 'p xmlParser \<Rightarrow> requestBody \<Rightarrow> ('p reply \<times> event list) option" where
  "handler fetch parser body =
     (case data body of
        None \<Rightarrow> Some ((400, ErrorBody ''No valid data provided'' None None), [])
      | Some rows \<Rightarrow>
          (case contextId body of
             None \<Rightarrow> Some ((400, ErrorBody ''ContextId is required'' None None), [])
           | Some c \<Rightarrow>
               if c = [] then Some ((400, ErrorBody ''ContextId is required'' None None), [])
               else
                 (case chunkArray rows 50 of
                    None \<Rightarrow> None
                  | Some chunks \<Rightarrow>
                      (case batchLoop fetch parser chunks c 0 [] [] of
                         (Inl r, trace) \<Rightarrow> Some (r, trace)
                       | (Inr responses, trace) \<Rightarrow>
                           Some ((200, SummaryBody
                                    \<lparr>overallSuccess = list_ex success responses,
                                     totalBatches = length chunks,
                                     totalItems = length rows,
                                     successfulBatches = length (filter success responses),
                                     results = responses\<rparr>),
                                 trace)))))"

subsection \<open>Auxiliary definitions for the statements\<close>

text \<open>
  The closed form of what \<^verbatim>\<open>chunkArray\<close> returns for a positive size: window \<open>k\<close> is
  the \<open>s\<close> elements from position \<open>k * s\<close>. It is proved equal to the loop below.
\<close>

definition chunksOf :: "nat \<Rightarrow> 'a list \<Rightarrow> 'a list list" where
  "chunksOf s arr = map (\<lambda>k. take s (drop (k * s) arr)) [0..<(length arr + s - 1) div s]"

text \<open>
  Escaping as claim C8 words it, which the source does not have: each of the five
  characters with a predefined XML entity is replaced by its entity reference.
  \<open>plain\<close> holds of a string with none of the five.
\<close>

definition spec_xmlEscapeChar :: "char \<Rightarrow> string" where
  "spec_xmlEscapeChar ch =
     (if ch = CHR ''&'' then ''&amp;''
      else if ch = CHR ''<'' then ''&lt;''
      else if ch = CHR ''>'' then ''&gt;''
      else if ch = CHR 0x22 then ''&quot;''
      else if ch = CHR 0x27 then ''&apos;''
      else [ch])"

definition spec_xmlEscape :: "string \<Rightarrow> string" where
  "spec_xmlEscape s = concat (map spec_xmlEscapeChar s)"

definition plain :: "string \<Rightarrow> bool" where
  "plain s = list_all (\<lambda>ch. ch \<notin> set [CHR ''&'', CHR ''<'', CHR ''>'', CHR 0x22, CHR 0x27]) s"

text \<open>A row has a string under a key: the reading \<^verbatim>\<open>row[key].trim()\<close> does not throw.\<close>

definition stringField :: "row \<Rightarrow> string \<Rightarrow> bool" where
  "stringField r key = (case r key of Some (JString s) \<Rightarrow> True | _ \<Rightarrow> False)"

text \<open>
  A batch result, and a reply, with the parsed form of the response left out. Two runs
  that agree under it differ at most in \<^verbatim>\<open>parsedResponse\<close>.
\<close>

definition forgetParsed :: "'p batchResult \<Rightarrow> unit batchResult" where
  "forgetParsed r =
     (case r of
        Succeeded b s raw p n good \<Rightarrow> Succeeded b s raw None n good
      | Failed b s e n good \<Rightarrow> Failed b s e n good)"

definition forgetParsedReply :: "'p reply \<Rightarrow> unit reply" where
  "forgetParsedReply rp =
     (case rp of
        (st, ErrorBody e d b) \<Rightarrow> (st, ErrorBody e d b)
      | (st, SummaryBody s) \<Rightarrow>
          (st, SummaryBody
             \<lparr>overallSuccess = overallSuccess s,
              totalBatches = totalBatches s,
              totalItems = totalItems s,
              successfulBatches = successfulBatches s,
              results = map forgetParsed (results s)\<rparr>))"

subsection \<open>Sample inputs\<close>

text \<open>
  The row of the specification's example, the request body the builder makes of \<open>n\<close>
  such rows under the context identifier \<^verbatim>\<open>CTX\<close>, a remote answer with a readable
  body, and the error \<^verbatim>\<open>fetch\<close> rejects with when the abort signal fires.
\<close>

definition sampleRow :: row where
  "sampleRow = [''EnvelopeId'' \<mapsto> JString '' E1 '', ''AuthToken'' \<mapsto> JString '' T1 '']"

definition sampleBody :: "nat \<Rightarrow> string" where
  "sampleBody n = envelopeHead @ concat (replicate n (element ''CTX'' ''E1'' ''T1'')) @ envelopeTail"

definition answer :: "nat \<Rightarrow> string \<Rightarrow> string \<Rightarrow> fetchOutcome" where
  "answer st reason text = Resolves \<lparr>responseStatus = st, statusText = reason, responseText = Inr text\<rparr>"

definition abortError :: jsError where
  "abortError = \<lparr>name = ''AbortError'', code = None, message = ''The user aborted a request.''\<rparr>"

section \<open>Properties of \<^verbatim>\<open>chunkArray\<close>\<close>

lemma slice_window:
  "0 < s \<Longrightarrow> j < length arr \<Longrightarrow> slice arr (int j) (int j + int s) = take s (drop j arr)"
  by (auto simp: slice_def Let_def min_def nat_add_distrib)

lemma chunk_count_step:
  assumes "0 < s" "j < n"
  shows "(n - j + s - 1) div s = Suc ((n - (j + s) + s - 1) div s)"
proof (cases "n - j \<le> s")
  case True
  with assms have "(n - j + s - 1) div s = 1"
    by (intro div_nat_eqI) auto
  moreover from True have "n - (j + s) = 0" by simp
  ultimately show ?thesis using assms by simp
next
  case False
  then have "n - j + s - 1 = (n - (j + s) + s - 1) + s" by simp
  then show ?thesis using assms by (simp only: div_add_self2)
qed

lemma chunkArray_loop_pos:
  "0 < s \<Longrightarrow> chunkArray_loop arr (int s) (int j) chunks =
     Some (chunks @ map (\<lambda>k. take s (drop (j + k * s) arr)) [0..<(length arr - j + s - 1) div s])"
proof (induction "length arr - j" arbitrary: j chunks rule: less_induct)
  case less
  show ?case
  proof (cases "j < length arr")
    case False
    then have "(length arr - j + s - 1) div s = 0" using less.prems by simp
    with False show ?thesis by (subst chunkArray_loop.simps) simp
  next
    case True
    note m = chunk_count_step [OF less.prems True]
    have ih: "chunkArray_loop arr (int s) (int (j + s)) (chunks @ [take s (drop j arr)]) =
      Some ((chunks @ [take s (drop j arr)])
            @ map (\<lambda>k. take s (drop (j + s + k * s) arr)) [0..<(length arr - (j + s) + s - 1) div s])"
      using less.prems True by (intro less.hyps) auto
    have "chunkArray_loop arr (int s) (int j) chunks =
        chunkArray_loop arr (int s) (int (j + s)) (chunks @ [take s (drop j arr)])"
      using True less.prems by (subst chunkArray_loop.simps) (simp add: slice_window)
    also note ih
    finally show ?thesis
      unfolding m map_upt_Suc by (simp add: ac_simps)
  qed
qed

lemma chunkArray_pos: "0 < sz \<Longrightarrow> chunkArray arr sz = Some (chunksOf (nat sz) arr)"
  using chunkArray_loop_pos [of "nat sz" arr 0 "[]"] by (simp add: chunkArray_def chunksOf_def)

lemma concat_windows: "concat (map (\<lambda>k. take s (drop (k * s) arr)) [0..<m]) = take (m * s) arr"
proof (induction m)
  case 0
  show ?case by simp
next
  case (Suc m)
  have "take (Suc m * s) arr = take (m * s + s) arr" by (simp add: add.commute)
  also have "\<dots> = take (m * s) arr @ take s (drop (m * s) arr)" by (rule take_add)
  finally show ?case using Suc by simp
qed

lemma concat_chunksOf: "0 < s \<Longrightarrow> concat (chunksOf s arr) = arr"
proof -
  assume s: "0 < s"
  have "length arr \<le> (length arr + s - 1) div s * s"
  proof -
    have "(length arr + s - 1) mod s < s" using s by simp
    moreover have "(length arr + s - 1) div s * s + (length arr + s - 1) mod s = length arr + s - 1"
      by simp
    ultimately show ?thesis by linarith
  qed
  then show ?thesis by (simp add: chunksOf_def concat_windows)
qed

lemma length_chunksOf: "length (chunksOf s arr) = (length arr + s - 1) div s"
  by (simp add: chunksOf_def)

lemma chunksOf_nth:
  "k < length (chunksOf s arr) \<Longrightarrow> chunksOf s arr ! k = take s (drop (k * s) arr)"
  by (simp add: chunksOf_def)

lemma chunksOf_full:
  assumes "0 < s" "k + 1 < length (chunksOf s arr)"
  shows "length (chunksOf s arr ! k) = s"
proof -
  from assms(2) have "k + 2 \<le> (length arr + s - 1) div s" by (simp add: length_chunksOf)
  then have "(k + 2) * s \<le> (length arr + s - 1) div s * s" by (rule mult_le_mono1)
  also have "\<dots> \<le> length arr + s - 1" by simp
  finally have "(k + 1) * s < length arr" using assms(1) by simp
  then show ?thesis using assms by (simp add: chunksOf_nth min_def)
qed

lemma chunksOf_last:
  assumes "0 < s" "chunksOf s arr \<noteq> []"
  shows "0 < length (last (chunksOf s arr)) \<and> length (last (chunksOf s arr)) \<le> s"
proof -
  let ?m = "(length arr + s - 1) div s"
  from assms(2) have m: "0 < ?m" by (simp add: chunksOf_def)
  have l: "last (chunksOf s arr) = take s (drop ((?m - 1) * s) arr)"
    using assms(2) m by (simp add: last_conv_nth length_chunksOf chunksOf_nth)
  have "?m * s \<le> length arr + s - 1" by simp
  then have "(?m - 1) * s + s \<le> length arr + s - 1" using m
    by (simp add: algebra_simps diff_mult_distrib)
  then have "(?m - 1) * s < length arr" using assms(1) by linarith
  then show ?thesis using assms(1) by (simp add: l)
qed

lemma ceiling_count:
  assumes "0 < s"
  shows "int ((n + s - 1) div s) = \<lceil>real n / real s\<rceil>"
proof -
  let ?m = "(n + s - 1) div s"
  have "(n + s - 1) mod s < s" using assms by simp
  moreover have "?m * s + (n + s - 1) mod s = n + s - 1" by simp
  ultimately have up: "n \<le> ?m * s" by linarith
  have "?m * s \<le> n + s - 1" by simp
  then have lo: "?m * s < n + s" using assms by linarith
  have "real n \<le> real (?m * s)" using up by (simp only: of_nat_le_iff)
  then have a: "real n / real s \<le> real ?m" using assms by (simp add: pos_divide_le_eq)
  have "real (?m * s) < real (n + s)" using lo by (simp only: of_nat_less_iff)
  then have "(real ?m - 1) * real s < real n" by (simp add: algebra_simps)
  moreover have "0 < real s" using assms by simp
  ultimately have b: "real ?m - 1 < real n / real s" by (simp only: pos_less_divide_eq)
  show ?thesis using a b by (intro ceiling_unique [symmetric]) simp_all
qed

lemma chunkArray_loop_returns:
  assumes "chunkArray_loop arr sz i chunks = Some r"
  shows "\<not> (sz \<le> 0 \<and> i < int (length arr))"
proof (rule chunkArray_loop.raw_induct
    [where P = "\<lambda>arr sz i chunks r. \<not> (sz \<le> 0 \<and> i < int (length arr))", OF _ assms])
  fix lp :: "'a list \<Rightarrow> int \<Rightarrow> int \<Rightarrow> 'a list list \<Rightarrow> 'a list list option"
  fix arr sz i chunks r
  assume ih: "\<And>arr sz i chunks r. lp arr sz i chunks = Some r \<Longrightarrow> \<not> (sz \<le> 0 \<and> i < int (length arr))"
    and step: "(if i < int (length arr)
      then lp arr sz (i + sz) (chunks @ [slice arr i (i + sz)])
      else Some chunks) = Some r"
  show "\<not> (sz \<le> 0 \<and> i < int (length arr))"
  proof
    assume a: "sz \<le> 0 \<and> i < int (length arr)"
    with step have "lp arr sz (i + sz) (chunks @ [slice arr i (i + sz)]) = Some r" by simp
    from ih [OF this] a show False by simp
  qed
qed

lemma chunkArray_nonpos: "sz \<le> 0 \<Longrightarrow> arr \<noteq> [] \<Longrightarrow> chunkArray arr sz = None"
proof (cases "chunkArray arr sz")
  case None
  then show ?thesis .
next
  case (Some r)
  assume "sz \<le> 0" "arr \<noteq> []"
  with chunkArray_loop_returns [of arr sz 0 "[]" r] Some show ?thesis
    by (simp add: chunkArray_def)
qed

lemma chunkArray_Nil: "chunkArray [] sz = Some []"
  by (simp add: chunkArray_def chunkArray_loop.simps)

text \<open>
  Claim C3. For a positive size the call returns, and what it returns has
  \<open>\<lceil>n / size\<rceil>\<close> chunks; every chunk but the last has exactly \<open>size\<close> elements, the last
  has between one and \<open>size\<close>; chunk \<open>k\<close> is the window of the input that starts at
  \<open>k * size\<close>; and the chunks concatenated in order are the input.
\<close>

theorem chunkArray_partition:
  assumes "0 < sz"
  shows "\<exists>chunks. chunkArray arr sz = Some chunks
    \<and> int (length chunks) = \<lceil>real (length arr) / real_of_int sz\<rceil>
    \<and> (\<forall>k. k + 1 < length chunks \<longrightarrow> length (chunks ! k) = nat sz)
    \<and> (chunks \<noteq> [] \<longrightarrow> 0 < length (last chunks) \<and> length (last chunks) \<le> nat sz)
    \<and> (\<forall>k < length chunks. chunks ! k = take (nat sz) (drop (k * nat sz) arr))
    \<and> concat chunks = arr"
proof -
  from assms have s: "0 < nat sz" by simp
  have "real_of_int sz = real (nat sz)" using assms by simp
  then have "int (length (chunksOf (nat sz) arr)) = \<lceil>real (length arr) / real_of_int sz\<rceil>"
    using ceiling_count [OF s, of "length arr"] by (simp only: length_chunksOf)
  moreover have "\<forall>k. k + 1 < length (chunksOf (nat sz) arr) \<longrightarrow> length (chunksOf (nat sz) arr ! k) = nat sz"
    using chunksOf_full [OF s] by blast
  moreover have "chunksOf (nat sz) arr \<noteq> [] \<longrightarrow>
      0 < length (last (chunksOf (nat sz) arr)) \<and> length (last (chunksOf (nat sz) arr)) \<le> nat sz"
    using chunksOf_last [OF s] by blast
  moreover have "\<forall>k < length (chunksOf (nat sz) arr).
      chunksOf (nat sz) arr ! k = take (nat sz) (drop (k * nat sz) arr)"
    using chunksOf_nth by blast
  moreover have "concat (chunksOf (nat sz) arr) = arr" by (rule concat_chunksOf [OF s])
  ultimately show ?thesis using chunkArray_pos [OF assms, of arr] by blast
qed

text \<open>
  Five records in chunks of two.
\<close>

theorem chunkArray_partition_witness:
  "(0::int) < 2 \<and> chunkArray [1::nat, 2, 3, 4, 5] 2 = Some [[1, 2], [3, 4], [5]]
   \<and> int (length [[1::nat, 2], [3, 4], [5]]) = \<lceil>real (length [1::nat, 2, 3, 4, 5]) / real_of_int 2\<rceil>
   \<and> concat [[1::nat, 2], [3, 4], [5]] = [1, 2, 3, 4, 5]"
proof -
  have h: "(0::int) < 2" by simp
  have c: "chunkArray [1::nat, 2, 3, 4, 5] 2 = Some [[1, 2], [3, 4], [5]]"
    using chunkArray_pos [OF h, of "[1::nat, 2, 3, 4, 5]"] by (simp add: chunksOf_def upt_conv_Cons)
  from chunkArray_partition [OF h, of "[1::nat, 2, 3, 4, 5]"] c h show ?thesis by auto
qed

text \<open>
  Claim C9, as the code has it. \<^verbatim>\<open>chunkArray\<close> does not look at the sign of the size. With
  a size that is zero or negative, an empty array gives zero chunks without any error, and
  the loop over a non-empty array never ends: the counter does not move towards the
  length of the array.
\<close>

theorem chunkArray_nonpositive_size:
  "sz \<le> 0 \<Longrightarrow> chunkArray arr sz = (if arr = [] then Some [] else None)"
  by (simp add: chunkArray_Nil chunkArray_nonpos)

text \<open>
  Size 0 on two records and on none.
\<close>

theorem chunkArray_nonpositive_size_witness:
  "(0::int) \<le> 0 \<and> chunkArray [1::nat, 2] 0 = None \<and> chunkArray ([]::nat list) 0 = Some []"
  using chunkArray_nonpositive_size [of 0 "[1::nat, 2]"] chunkArray_nonpositive_size [of 0 "[]::nat list"]
  by simp

text \<open>
  Claim C9 as stated fails: with size 0 the empty array is chunked without a failure, and
  with size 0 or -1 the call on a one-element array does not return.
\<close>

theorem chunkArray_zero_size_counterexample:
  "chunkArray ([]::nat list) 0 = Some [] \<and> chunkArray [7::nat] 0 = None \<and> chunkArray [7::nat] (- 1) = None"
  by (simp add: chunkArray_Nil chunkArray_nonpos)

section \<open>Properties of \<^verbatim>\<open>buildSoapEnvelope\<close>\<close>

lemmas trim_eval = trim_def trimStart.simps trimEnd.simps whiteSpace_def suffix_to_prefix

lemma requestElement_strings:
  "r ''EnvelopeId'' = Some (JString e) \<Longrightarrow> r ''AuthToken'' = Some (JString t) \<Longrightarrow>
   requestElement c r = Inr (element c (trim e) (trim t))"
  by (simp add: requestElement_def trimField_def)

lemma mapRows_strings:
  assumes "list_all2 (\<lambda>r (e, t). r ''EnvelopeId'' = Some (JString e) \<and> r ''AuthToken'' = Some (JString t)) chunk ps"
  shows "mapRows (requestElement c) chunk = Inr (map (\<lambda>(e, t). element c (trim e) (trim t)) ps)"
  using assms
  by (induction chunk ps rule: list_all2_induct) (auto simp: requestElement_strings)

lemma buildSoapEnvelope_strings:
  assumes "list_all2 (\<lambda>r (e, t). r ''EnvelopeId'' = Some (JString e) \<and> r ''AuthToken'' = Some (JString t)) chunk ps"
  shows "buildSoapEnvelope chunk c =
    Inr (envelopeHead @ concat (map (\<lambda>(e, t). element c (trim e) (trim t)) ps) @ envelopeTail)"
  by (simp add: buildSoapEnvelope_def mapRows_strings [OF assms])

text \<open>
  Claim C5. For a chunk whose records have strings under \<^verbatim>\<open>EnvelopeId\<close> and
  \<^verbatim>\<open>AuthToken\<close>, the document is the fixed head, then one \<^verbatim>\<open>DeleteEnvelopeRequest\<close>
  element per record in the order of the chunk, then the fixed tail. Each element carries
  the context identifier as \<^verbatim>\<open>ContextIdentifier\<close>, the trimmed \<^verbatim>\<open>EnvelopeId\<close> of the record
  as \<^verbatim>\<open>EnvelopeId\<close> and its trimmed \<^verbatim>\<open>AuthToken\<close> as \<^verbatim>\<open>EnvelopeAuthToken\<close>.
\<close>

theorem buildSoapEnvelope_elements:
  assumes "list_all2 (\<lambda>r (e, t). r ''EnvelopeId'' = Some (JString e) \<and> r ''AuthToken'' = Some (JString t)) chunk ps"
  shows \<open>buildSoapEnvelope chunk c =
    Inr (envelopeHead
         @ concat (map (\<lambda>(e, t). ''<DeleteEnvelopeRequest ContextIdentifier="'' @ c
                                  @ ''" EnvelopeId="'' @ trim e
                                  @ ''" EnvelopeAuthToken="'' @ trim t @ ''" />'') ps)
         @ envelopeTail)\<close>
  using buildSoapEnvelope_strings [OF assms, of c] by (simp add: element_def)

text \<open>
  The example of the specification: one record with padded values, context identifier
  \<^verbatim>\<open>CTX\<close>.
\<close>

theorem buildSoapEnvelope_elements_witness:
  \<open>list_all2 (\<lambda>r (e, t). r ''EnvelopeId'' = Some (JString e) \<and> r ''AuthToken'' = Some (JString t))
      [[''EnvelopeId'' \<mapsto> JString '' E1 '', ''AuthToken'' \<mapsto> JString '' T1 '']] [('' E1 '', '' T1 '')]
   \<and> buildSoapEnvelope [[''EnvelopeId'' \<mapsto> JString '' E1 '', ''AuthToken'' \<mapsto> JString '' T1 '']] ''CTX'' =
     Inr (envelopeHead
          @ ''<DeleteEnvelopeRequest ContextIdentifier="CTX" EnvelopeId="E1" EnvelopeAuthToken="T1" />''
          @ envelopeTail)\<close>
proof -
  have h: "list_all2 (\<lambda>r (e, t). r ''EnvelopeId'' = Some (JString e) \<and> r ''AuthToken'' = Some (JString t))
      [[''EnvelopeId'' \<mapsto> JString '' E1 '', ''AuthToken'' \<mapsto> JString '' T1 '']] [('' E1 '', '' T1 '')]"
    by simp
  have t: "trim '' E1 '' = ''E1''" "trim '' T1 '' = ''T1''" by (simp_all add: trim_eval)
  show ?thesis using h buildSoapEnvelope_elements [OF h, of "''CTX''"] by (simp add: t)
qed

lemma spec_xmlEscapeChar_length: "1 \<le> length (spec_xmlEscapeChar ch)"
  by (simp add: spec_xmlEscapeChar_def)

lemma spec_xmlEscape_Cons: "spec_xmlEscape (ch # s) = spec_xmlEscapeChar ch @ spec_xmlEscape s"
  by (simp add: spec_xmlEscape_def)

lemma spec_xmlEscape_length: "length s \<le> length (spec_xmlEscape s)"
proof (induction s)
  case Nil
  show ?case by (simp add: spec_xmlEscape_def)
next
  case (Cons ch s)
  with spec_xmlEscapeChar_length [of ch] show ?case by (simp add: spec_xmlEscape_Cons)
qed

lemma spec_xmlEscape_plain: "plain s \<Longrightarrow> spec_xmlEscape s = s"
  by (induction s) (auto simp: plain_def spec_xmlEscape_def spec_xmlEscapeChar_def)

lemma spec_xmlEscape_same_length: "length (spec_xmlEscape s) = length s \<Longrightarrow> plain s"
proof (induction s)
  case Nil
  show ?case by (simp add: plain_def)
next
  case (Cons ch s)
  have l: "length (spec_xmlEscapeChar ch) + length (spec_xmlEscape s) = Suc (length s)"
    using Cons.prems by (simp add: spec_xmlEscape_Cons)
  with spec_xmlEscapeChar_length [of ch] spec_xmlEscape_length [of s]
  have one: "length (spec_xmlEscapeChar ch) = 1" and rest: "length (spec_xmlEscape s) = length s"
    by linarith+
  from one have "ch \<notin> set [CHR ''&'', CHR ''<'', CHR ''>'', CHR 0x22, CHR 0x27]"
    by (auto simp: spec_xmlEscapeChar_def split: if_splits)
  with Cons.IH [OF rest] show ?case by (simp add: plain_def)
qed

lemma element_length:
  "\<exists>n. \<forall>c e t. length (element c e t) = n + length c + length e + length t"
proof -
  have "\<exists>A B C D. \<forall>c e t. element c e t = A @ c @ B @ e @ C @ t @ D"
    unfolding element_def
    apply (rule exI)+
    apply (rule allI)+
    apply (rule refl)
    done
  then obtain A B C D where "\<forall>c e t. element c e t = A @ c @ B @ e @ C @ t @ D" by blast
  then have "\<forall>c e t. length (element c e t)
      = (length A + length B + length C + length D) + length c + length e + length t"
    by simp
  then show ?thesis by blast
qed

lemma element_eq_escaped:
  assumes "element c e t = element (spec_xmlEscape c) (spec_xmlEscape e) (spec_xmlEscape t)"
  shows "plain c \<and> plain e \<and> plain t"
proof -
  from element_length obtain n
    where n: "\<And>c e t. length (element c e t) = n + length c + length e + length t" by blast
  have "length c + length e + length t
      = length (spec_xmlEscape c) + length (spec_xmlEscape e) + length (spec_xmlEscape t)"
    using arg_cong [OF assms, of length] by (simp only: n)
  with spec_xmlEscape_length [of c] spec_xmlEscape_length [of e] spec_xmlEscape_length [of t]
  have "length (spec_xmlEscape c) = length c" "length (spec_xmlEscape e) = length e"
    "length (spec_xmlEscape t) = length t"
    by linarith+
  then show ?thesis by (simp add: spec_xmlEscape_same_length)
qed

lemma concat_elements_eq:
  assumes "concat (map f ps) = concat (map g ps)"
    and "\<And>p. p \<in> set ps \<Longrightarrow> length (f p) \<le> length (g p)"
  shows "\<forall>p \<in> set ps. f p = g p"
  using assms
proof (induction ps)
  case Nil
  show ?case by simp
next
  case (Cons p ps)
  have le: "length (concat (map f ps)) \<le> length (concat (map g ps))"
    using Cons.prems(2) by (induction ps) (auto intro: add_mono)
  have eq: "f p @ concat (map f ps) = g p @ concat (map g ps)"
    using Cons.prems(1) by simp
  from arg_cong [OF eq, of length] le Cons.prems(2) [of p]
  have "length (f p) = length (g p)" by simp
  with eq have "f p = g p" "concat (map f ps) = concat (map g ps)" by simp_all
  with Cons.IH Cons.prems(2) show ?case by simp
qed

lemma elements_escaped_iff:
  "concat (map (\<lambda>(e, t). element c (trim e) (trim t)) ps)
     = concat (map (\<lambda>(e, t). element (spec_xmlEscape c) (spec_xmlEscape (trim e)) (spec_xmlEscape (trim t))) ps)
   \<longleftrightarrow> (ps = [] \<or> plain c) \<and> list_all (\<lambda>(e, t). plain (trim e) \<and> plain (trim t)) ps"
  (is "?L \<longleftrightarrow> ?R")
proof
  assume ?L
  then have "\<forall>p \<in> set ps. (\<lambda>(e, t). element c (trim e) (trim t)) p
      = (\<lambda>(e, t). element (spec_xmlEscape c) (spec_xmlEscape (trim e)) (spec_xmlEscape (trim t))) p"
  proof (rule concat_elements_eq)
    fix p :: "string \<times> string"
    obtain e t where p: "p = (e, t)" by (cases p)
    from element_length obtain n
      where n: "\<And>c e t. length (element c e t) = n + length c + length e + length t" by blast
    show "length ((\<lambda>(e, t). element c (trim e) (trim t)) p)
        \<le> length ((\<lambda>(e, t). element (spec_xmlEscape c) (spec_xmlEscape (trim e)) (spec_xmlEscape (trim t))) p)"
      using spec_xmlEscape_length [of c] spec_xmlEscape_length [of "trim e"] spec_xmlEscape_length [of "trim t"]
      by (simp add: p n)
  qed
  then have all: "\<forall>(e, t) \<in> set ps. plain c \<and> plain (trim e) \<and> plain (trim t)"
    by (auto dest!: bspec dest: element_eq_escaped)
  then have "list_all (\<lambda>(e, t). plain (trim e) \<and> plain (trim t)) ps"
    by (auto simp: list_all_iff)
  moreover have "ps = [] \<or> plain c" using all by (cases ps) auto
  ultimately show ?R by simp
next
  assume r: ?R
  show ?L
  proof (cases "ps = []")
    case True
    then show ?thesis by simp
  next
    case False
    with r have c: "spec_xmlEscape c = c" by (simp add: spec_xmlEscape_plain)
    have "map (\<lambda>(e, t). element c (trim e) (trim t)) ps
        = map (\<lambda>(e, t). element (spec_xmlEscape c) (spec_xmlEscape (trim e)) (spec_xmlEscape (trim t))) ps"
      using r by (auto simp: c list_all_iff spec_xmlEscape_plain)
    then show ?thesis by (rule arg_cong)
  qed
qed

text \<open>
  Claim C8, as the code has it. The builder puts the context identifier and the trimmed
  values into the attributes as they are. The document is the escaped one exactly when
  there is nothing to escape: no record at all or a plain context identifier, and plain
  trimmed values in every record.
\<close>

theorem buildSoapEnvelope_verbatim:
  assumes "list_all2 (\<lambda>r (e, t). r ''EnvelopeId'' = Some (JString e) \<and> r ''AuthToken'' = Some (JString t)) chunk ps"
  shows "buildSoapEnvelope chunk c =
      Inr (envelopeHead @ concat (map (\<lambda>(e, t). element c (trim e) (trim t)) ps) @ envelopeTail)
    \<and> (buildSoapEnvelope chunk c =
         Inr (envelopeHead
              @ concat (map (\<lambda>(e, t). element (spec_xmlEscape c) (spec_xmlEscape (trim e)) (spec_xmlEscape (trim t))) ps)
              @ envelopeTail)
       \<longleftrightarrow> (ps = [] \<or> plain c) \<and> list_all (\<lambda>(e, t). plain (trim e) \<and> plain (trim t)) ps)"
  using elements_escaped_iff [of c ps] by (simp add: buildSoapEnvelope_strings [OF assms])

text \<open>
  A value with an ampersand goes into the document unchanged, and the document is not
  the escaped one.
\<close>

theorem buildSoapEnvelope_verbatim_witness:
  "list_all2 (\<lambda>r (e, t). r ''EnvelopeId'' = Some (JString e) \<and> r ''AuthToken'' = Some (JString t))
      [[''EnvelopeId'' \<mapsto> JString ''A&B'', ''AuthToken'' \<mapsto> JString ''T1'']] [(''A&B'', ''T1'')]
   \<and> buildSoapEnvelope [[''EnvelopeId'' \<mapsto> JString ''A&B'', ''AuthToken'' \<mapsto> JString ''T1'']] ''CTX''
       = Inr (envelopeHead @ element ''CTX'' ''A&B'' ''T1'' @ envelopeTail)
   \<and> buildSoapEnvelope [[''EnvelopeId'' \<mapsto> JString ''A&B'', ''AuthToken'' \<mapsto> JString ''T1'']] ''CTX''
       \<noteq> Inr (envelopeHead @ element ''CTX'' ''A&amp;B'' ''T1'' @ envelopeTail)"
proof -
  have h: "list_all2 (\<lambda>r (e, t). r ''EnvelopeId'' = Some (JString e) \<and> r ''AuthToken'' = Some (JString t))
      [[''EnvelopeId'' \<mapsto> JString ''A&B'', ''AuthToken'' \<mapsto> JString ''T1'']] [(''A&B'', ''T1'')]"
    by simp
  have t: "trim ''A&B'' = ''A&B''" "trim ''T1'' = ''T1''" by (simp_all add: trim_eval)
  have x: "spec_xmlEscape ''CTX'' = ''CTX''" "spec_xmlEscape ''A&B'' = ''A&amp;B''" "spec_xmlEscape ''T1'' = ''T1''"
    by (simp_all add: spec_xmlEscape_def spec_xmlEscapeChar_def)
  have p: "\<not> plain ''A&B''" by (simp add: plain_def)
  note v = buildSoapEnvelope_verbatim [OF h, of "''CTX''"]
  from v [THEN conjunct1]
  have a: "buildSoapEnvelope [[''EnvelopeId'' \<mapsto> JString ''A&B'', ''AuthToken'' \<mapsto> JString ''T1'']] ''CTX''
       = Inr (envelopeHead @ element ''CTX'' ''A&B'' ''T1'' @ envelopeTail)"
    by (simp add: t)
  from v [THEN conjunct2]
  have b: "buildSoapEnvelope [[''EnvelopeId'' \<mapsto> JString ''A&B'', ''AuthToken'' \<mapsto> JString ''T1'']] ''CTX''
       \<noteq> Inr (envelopeHead @ element ''CTX'' ''A&amp;B'' ''T1'' @ envelopeTail)"
    by (simp add: t x p)
  from h a b show ?thesis by (intro conjI)
qed

text \<open>
  Claim C8 as stated fails. One record whose \<^verbatim>\<open>EnvelopeId\<close> holds a double quote and
  markup yields the very document that two records yield: the value has added a request
  element. A double quote, a less-than sign and an ampersand in a value reach the
  attribute unescaped.
\<close>

theorem buildSoapEnvelope_injection_counterexample:
  \<open>buildSoapEnvelope
     [[''EnvelopeId'' \<mapsto> JString ''A" EnvelopeAuthToken="B" /><DeleteEnvelopeRequest ContextIdentifier="CTX" EnvelopeId="C'',
       ''AuthToken'' \<mapsto> JString ''D'']] ''CTX''
   = buildSoapEnvelope
     [[''EnvelopeId'' \<mapsto> JString ''A'', ''AuthToken'' \<mapsto> JString ''B''],
      [''EnvelopeId'' \<mapsto> JString ''C'', ''AuthToken'' \<mapsto> JString ''D'']] ''CTX''
   \<and> buildSoapEnvelope [[''EnvelopeId'' \<mapsto> JString ''a"b<c&d'', ''AuthToken'' \<mapsto> JString ''T1'']] ''CTX''
   = Inr (envelopeHead
          @ ''<DeleteEnvelopeRequest ContextIdentifier="CTX" EnvelopeId="a"b<c&d" EnvelopeAuthToken="T1" />''
          @ envelopeTail)\<close>
  by (simp add: buildSoapEnvelope_def requestElement_def trimField_def element_def trim_eval)

lemma requestElement_error:
  "requestElement c r = Inl e \<Longrightarrow> name e = ''TypeError'' \<and> code e = None"
  by (auto simp: requestElement_def trimField_def typeError_def
      split: sum.splits option.splits jsValue.splits)

lemma requestElement_missing:
  "\<not> stringField r ''EnvelopeId'' \<or> \<not> stringField r ''AuthToken'' \<Longrightarrow> \<exists>e. requestElement c r = Inl e"
  by (auto simp: requestElement_def trimField_def stringField_def
      split: sum.splits option.splits jsValue.splits)

lemma requestElement_present:
  "stringField r ''EnvelopeId'' \<Longrightarrow> stringField r ''AuthToken'' \<Longrightarrow> \<exists>x. requestElement c r = Inr x"
  by (auto simp: requestElement_def trimField_def stringField_def
      split: sum.splits option.splits jsValue.splits)

lemma mapRows_error:
  "mapRows (requestElement c) chunk = Inl e \<Longrightarrow> name e = ''TypeError'' \<and> code e = None"
proof (induction chunk)
  case Nil
  then show ?case by simp
next
  case (Cons r rs)
  then show ?case
    by (auto split: sum.splits dest: requestElement_error)
qed

lemma mapRows_missing:
  "list_ex (\<lambda>r. \<not> stringField r ''EnvelopeId'' \<or> \<not> stringField r ''AuthToken'') chunk
   \<Longrightarrow> \<exists>e. mapRows (requestElement c) chunk = Inl e"
proof (induction chunk)
  case Nil
  then show ?case by simp
next
  case (Cons r rs)
  show ?case
  proof (cases "requestElement c r")
    case (Inl e)
    then show ?thesis by simp
  next
    case (Inr x)
    with requestElement_missing [of r c]
    have "stringField r ''EnvelopeId'' \<and> stringField r ''AuthToken''" by auto
    with Cons.prems have "list_ex (\<lambda>r. \<not> stringField r ''EnvelopeId'' \<or> \<not> stringField r ''AuthToken'') rs"
      by simp
    from Cons.IH [OF this] Inr show ?thesis by auto
  qed
qed

lemma mapRows_present:
  "list_all (\<lambda>r. stringField r ''EnvelopeId'' \<and> stringField r ''AuthToken'') chunk
   \<Longrightarrow> \<exists>xs. mapRows (requestElement c) chunk = Inr xs"
proof (induction chunk)
  case Nil
  show ?case by simp
next
  case (Cons r rs)
  then obtain xs where "mapRows (requestElement c) rs = Inr xs" by auto
  moreover from Cons.prems requestElement_present [of r c]
  obtain x where "requestElement c r = Inr x" by auto
  ultimately show ?case by simp
qed

lemma buildSoapEnvelope_missing:
  assumes "list_ex (\<lambda>r. \<not> stringField r ''EnvelopeId'' \<or> \<not> stringField r ''AuthToken'') chunk"
  shows "\<exists>e. buildSoapEnvelope chunk c = Inl e \<and> name e = ''TypeError'' \<and> code e = None"
proof -
  from mapRows_missing [OF assms] obtain e where e: "mapRows (requestElement c) chunk = Inl e"
    by blast
  with mapRows_error [OF e] show ?thesis by (simp add: buildSoapEnvelope_def)
qed

lemma buildSoapEnvelope_present:
  assumes "list_all (\<lambda>r. stringField r ''EnvelopeId'' \<and> stringField r ''AuthToken'') chunk"
  shows "\<exists>doc. buildSoapEnvelope chunk c = Inr doc"
  using mapRows_present [OF assms, of c] by (auto simp: buildSoapEnvelope_def)

lemma processBatch_build_error:
  assumes "buildSoapEnvelope (chunks ! i) c = Inl e" "name e = ''TypeError''" "code e = None"
  shows "processBatch fetch parser chunks c i
    = ([], Push (Failed (i + 1) StatusError (message e) (length (chunks ! i)) False))"
  using assms by (simp add: processBatch_def tryBatch_def catchBatch_def)

text \<open>
  Claim C6, as the code has it. When a record of the chunk lacks a string under
  \<^verbatim>\<open>EnvelopeId\<close> or \<^verbatim>\<open>AuthToken\<close>, the builder throws a TypeError; the iteration sends
  nothing and pushes a failed entry with the message of the error and the size of the
  chunk, and the loop goes on with the next index. When every record has both strings the
  builder returns a document, whatever is left of the values after trimming.
\<close>

theorem missing_field_recorded_as_failed_batch:
  "(list_ex (\<lambda>r. \<not> stringField r ''EnvelopeId'' \<or> \<not> stringField r ''AuthToken'') (chunks ! i) \<longrightarrow>
      (\<exists>e. buildSoapEnvelope (chunks ! i) c = Inl e \<and> name e = ''TypeError'' \<and> code e = None
         \<and> processBatch fetch parser chunks c i
             = ([], Push (Failed (i + 1) StatusError (message e) (length (chunks ! i)) False))
         \<and> (i < length chunks \<longrightarrow>
              batchLoop fetch parser chunks c i responses trace
              = batchLoop fetch parser chunks c (i + 1)
                  (responses @ [Failed (i + 1) StatusError (message e) (length (chunks ! i)) False]) trace)))
   \<and> (list_all (\<lambda>r. stringField r ''EnvelopeId'' \<and> stringField r ''AuthToken'') (chunks ! i) \<longrightarrow>
        (\<exists>doc. buildSoapEnvelope (chunks ! i) c = Inr doc))"
proof (intro conjI impI)
  assume "list_ex (\<lambda>r. \<not> stringField r ''EnvelopeId'' \<or> \<not> stringField r ''AuthToken'') (chunks ! i)"
  from buildSoapEnvelope_missing [OF this, of c] obtain e
    where e: "buildSoapEnvelope (chunks ! i) c = Inl e" "name e = ''TypeError''" "code e = None"
    by blast
  note p = processBatch_build_error [OF e, of fetch parser]
  have "i < length chunks \<longrightarrow>
      batchLoop fetch parser chunks c i responses trace
      = batchLoop fetch parser chunks c (i + 1)
          (responses @ [Failed (i + 1) StatusError (message e) (length (chunks ! i)) False]) trace"
    by (subst batchLoop.simps) (simp add: p)
  with e p show "\<exists>e. buildSoapEnvelope (chunks ! i) c = Inl e \<and> name e = ''TypeError'' \<and> code e = None
         \<and> processBatch fetch parser chunks c i
             = ([], Push (Failed (i + 1) StatusError (message e) (length (chunks ! i)) False))
         \<and> (i < length chunks \<longrightarrow>
              batchLoop fetch parser chunks c i responses trace
              = batchLoop fetch parser chunks c (i + 1)
                  (responses @ [Failed (i + 1) StatusError (message e) (length (chunks ! i)) False]) trace)"
    by blast
next
  assume "list_all (\<lambda>r. stringField r ''EnvelopeId'' \<and> stringField r ''AuthToken'') (chunks ! i)"
  then show "\<exists>doc. buildSoapEnvelope (chunks ! i) c = Inr doc"
    by (rule buildSoapEnvelope_present)
qed

section \<open>The loop over the batches\<close>

lemma processBatch_shape:
  assumes "processBatch fetch parser chunks c i = (evs, st)"
  shows "(evs = [] \<and> (\<exists>e. buildSoapEnvelope (chunks ! i) c = Inl e))
    \<or> (\<exists>b. buildSoapEnvelope (chunks ! i) c = Inr b
          \<and> (evs = [Fetch i b] \<or> evs = [Fetch i b, Sleep 10000] \<and> (\<exists>x. st = Push x)))"
  using assms
  by (auto simp: processBatch_def tryBatch_def Let_def
      split: sum.splits fetchOutcome.splits if_splits)

lemma processBatch_push:
  assumes "processBatch fetch parser chunks c i = (evs, Push b)"
  shows "batch b = i + 1 \<and> itemCount b = length (chunks ! i)"
  using assms
  by (auto simp: processBatch_def tryBatch_def catchBatch_def Let_def
      split: sum.splits fetchOutcome.splits if_splits)

lemma batchLoop_done:
  "\<not> i < length chunks \<Longrightarrow> batchLoop fetch parser chunks c i responses trace = (Inr responses, trace)"
  by (subst batchLoop.simps) simp

lemma batchLoop_return:
  "i < length chunks \<Longrightarrow> processBatch fetch parser chunks c i = (evs, Return r) \<Longrightarrow>
   batchLoop fetch parser chunks c i responses trace = (Inl r, trace @ evs)"
  by (subst batchLoop.simps) simp

lemma batchLoop_push:
  "i < length chunks \<Longrightarrow> processBatch fetch parser chunks c i = (evs, Push b) \<Longrightarrow>
   batchLoop fetch parser chunks c i responses trace
     = batchLoop fetch parser chunks c (i + 1) (responses @ [b]) (trace @ evs)"
  by (subst batchLoop.simps) simp


lemma batchLoop_trace:
  assumes "batchLoop fetch parser chunks c i responses trace = (res, tr)"
  shows "\<exists>new. tr = trace @ new
    \<and> (\<forall>k b. Fetch k b \<in> set new \<longrightarrow>
          i \<le> k \<and> buildSoapEnvelope (chunks ! k) c = Inr b
          \<and> (\<forall>r. snd (processBatch fetch parser chunks c k) = Return r \<longrightarrow>
                res = Inl r \<and> (\<forall>k' b'. Fetch k' b' \<in> set new \<longrightarrow> k' \<le> k)
                \<and> last new = Fetch k b))"
  using assms
proof (induction "length chunks - i" arbitrary: i responses trace)
  case 0
  then have "tr = trace" by (simp add: batchLoop_done)
  then show ?case by simp
next
  case (Suc n)
  then have i: "i < length chunks" by simp
  obtain evs st where p: "processBatch fetch parser chunks c i = (evs, st)"
    by (cases "processBatch fetch parser chunks c i")
  note shape = processBatch_shape [OF p]
  show ?case
  proof (cases st)
    case (Return r0)
    with Suc.prems i p have res: "res = Inl r0" and tr: "tr = trace @ evs"
      by (simp_all add: batchLoop_return)
    from shape Return have "evs = [] \<or> (\<exists>b. buildSoapEnvelope (chunks ! i) c = Inr b \<and> evs = [Fetch i b])"
      by auto
    with res tr p Return show ?thesis by auto
  next
    case (Push b0)
    with Suc.prems i p
    have rec: "batchLoop fetch parser chunks c (i + 1) (responses @ [b0]) (trace @ evs) = (res, tr)"
      by (simp add: batchLoop_push)
    from Suc.hyps(2) have "n = length chunks - (i + 1)" by simp
    from Suc.hyps(1) [OF this rec] obtain new'
      where tr: "tr = (trace @ evs) @ new'"
        and inv: "\<And>k b. Fetch k b \<in> set new' \<Longrightarrow>
          i + 1 \<le> k \<and> buildSoapEnvelope (chunks ! k) c = Inr b
          \<and> (\<forall>r. snd (processBatch fetch parser chunks c k) = Return r \<longrightarrow>
                res = Inl r \<and> (\<forall>k' b'. Fetch k' b' \<in> set new' \<longrightarrow> k' \<le> k)
                \<and> last new' = Fetch k b)"
      by blast
    have evs: "\<And>k b. Fetch k b \<in> set evs \<Longrightarrow> k = i \<and> buildSoapEnvelope (chunks ! i) c = Inr b"
      using shape by auto
    have "\<forall>k b. Fetch k b \<in> set (evs @ new') \<longrightarrow>
          i \<le> k \<and> buildSoapEnvelope (chunks ! k) c = Inr b
          \<and> (\<forall>r. snd (processBatch fetch parser chunks c k) = Return r \<longrightarrow>
                res = Inl r \<and> (\<forall>k' b'. Fetch k' b' \<in> set (evs @ new') \<longrightarrow> k' \<le> k)
                \<and> last (evs @ new') = Fetch k b)"
    proof (intro allI impI)
      fix k b
      assume "Fetch k b \<in> set (evs @ new')"
      then consider (old) "Fetch k b \<in> set evs" | (new) "Fetch k b \<in> set new'" by auto
      then show "i \<le> k \<and> buildSoapEnvelope (chunks ! k) c = Inr b
          \<and> (\<forall>r. snd (processBatch fetch parser chunks c k) = Return r \<longrightarrow>
                res = Inl r \<and> (\<forall>k' b'. Fetch k' b' \<in> set (evs @ new') \<longrightarrow> k' \<le> k)
                \<and> last (evs @ new') = Fetch k b)"
      proof cases
        case old
        with evs [OF old] p Push show ?thesis by simp
      next
        case new
        note f = inv [OF new]
        have "new' \<noteq> []" using new by auto
        then have l: "last (evs @ new') = last new'" by simp
        have "\<And>k' b'. Fetch k' b' \<in> set evs \<Longrightarrow> k' \<le> k" using evs f by fastforce
        with f l show ?thesis by auto
      qed
    qed
    with tr show ?thesis by auto
  qed
qed

lemma batchLoop_results:
  assumes "batchLoop fetch parser chunks c i responses trace = (Inr rs, tr)"
  shows "\<exists>new. rs = responses @ new \<and> length new = length chunks - i
    \<and> (\<forall>k < length new. snd (processBatch fetch parser chunks c (i + k)) = Push (new ! k))"
  using assms
proof (induction "length chunks - i" arbitrary: i responses trace)
  case 0
  then have "rs = responses" by (simp add: batchLoop_done)
  with 0 show ?case by simp
next
  case (Suc n)
  then have i: "i < length chunks" by simp
  obtain evs st where p: "processBatch fetch parser chunks c i = (evs, st)"
    by (cases "processBatch fetch parser chunks c i")
  show ?case
  proof (cases st)
    case (Return r0)
    with Suc.prems i p show ?thesis by (simp add: batchLoop_return)
  next
    case (Push b0)
    with Suc.prems i p
    have rec: "batchLoop fetch parser chunks c (i + 1) (responses @ [b0]) (trace @ evs) = (Inr rs, tr)"
      by (simp add: batchLoop_push)
    from Suc.hyps(2) have n: "n = length chunks - (i + 1)" by simp
    from Suc.hyps(1) [OF n rec] obtain new'
      where rs: "rs = (responses @ [b0]) @ new'"
        and len: "length new' = length chunks - (i + 1)"
        and each: "\<And>k. k < length new' \<Longrightarrow>
          snd (processBatch fetch parser chunks c (i + 1 + k)) = Push (new' ! k)"
      by blast
    have "\<forall>k < length (b0 # new').
        snd (processBatch fetch parser chunks c (i + k)) = Push ((b0 # new') ! k)"
    proof (intro allI impI)
      fix k
      assume k: "k < length (b0 # new')"
      show "snd (processBatch fetch parser chunks c (i + k)) = Push ((b0 # new') ! k)"
      proof (cases k)
        case 0
        with p Push show ?thesis by simp
      next
        case (Suc k')
        with k each [of k'] show ?thesis by simp
      qed
    qed
    moreover have "length (b0 # new') = length chunks - i" using len i by simp
    moreover have "rs = responses @ (b0 # new')" using rs by simp
    ultimately show ?thesis by blast
  qed
qed

lemma processBatch_return:
  assumes "processBatch fetch parser chunks c i = (evs, Return r)"
  shows "\<exists>st a b d. r = (st, ErrorBody a b d)"
  using assms
  by (auto simp: processBatch_def tryBatch_def catchBatch_def Let_def
      split: sum.splits fetchOutcome.splits if_splits)

lemma batchLoop_returned:
  assumes "batchLoop fetch parser chunks c i responses trace = (Inl r, tr)"
  shows "\<exists>st a b d. r = (st, ErrorBody a b d)"
  using assms
proof (induction "length chunks - i" arbitrary: i responses trace)
  case 0
  then show ?case by (simp add: batchLoop_done)
next
  case (Suc n)
  then have i: "i < length chunks" by simp
  obtain evs st where p: "processBatch fetch parser chunks c i = (evs, st)"
    by (cases "processBatch fetch parser chunks c i")
  show ?case
  proof (cases st)
    case (Return r0)
    with Suc.prems i p have "r = r0" by (simp add: batchLoop_return)
    with p Return processBatch_return show ?thesis by blast
  next
    case (Push b0)
    with Suc.prems i p
    have rec: "batchLoop fetch parser chunks c (i + 1) (responses @ [b0]) (trace @ evs) = (Inl r, tr)"
      by (simp add: batchLoop_push)
    from Suc.hyps(2) have "n = length chunks - (i + 1)" by simp
    from Suc.hyps(1) [OF this rec] show ?thesis .
  qed
qed

lemma handler_run:
  assumes "data body = Some rows" "contextId body = Some c" "c \<noteq> []"
  shows "handler fetch parser body =
    (case batchLoop fetch parser (chunksOf 50 rows) c 0 [] [] of
       (Inl r, trace) \<Rightarrow> Some (r, trace)
     | (Inr responses, trace) \<Rightarrow>
         Some ((200, SummaryBody
                  \<lparr>overallSuccess = list_ex success responses,
                   totalBatches = length (chunksOf 50 rows),
                   totalItems = length rows,
                   successfulBatches = length (filter success responses),
                   results = responses\<rparr>),
               trace))"
proof -
  have "chunkArray rows 50 = Some (chunksOf 50 rows)"
    using chunkArray_pos [of 50 rows] by simp
  with assms show ?thesis by (simp add: handler_def)
qed

lemma handler_no_run:
  assumes "data body = None \<or> contextId body = None \<or> contextId body = Some []"
  shows "\<exists>r. handler fetch parser body = Some ((400, ErrorBody r None None), [])"
  using assms by (auto simp: handler_def split: option.splits)

lemma handler_cases:
  assumes "handler fetch parser body = Some (reply, trace)"
  shows "(trace = [] \<and> (\<exists>r. reply = (400, ErrorBody r None None)))
    \<or> (\<exists>rows c. data body = Some rows \<and> contextId body = Some c \<and> c \<noteq> []
          \<and> (batchLoop fetch parser (chunksOf 50 rows) c 0 [] [] = (Inl reply, trace)
              \<or> (\<exists>rs. batchLoop fetch parser (chunksOf 50 rows) c 0 [] [] = (Inr rs, trace)
                    \<and> reply = (200, SummaryBody
                        \<lparr>overallSuccess = list_ex success rs,
                         totalBatches = length (chunksOf 50 rows),
                         totalItems = length rows,
                         successfulBatches = length (filter success rs),
                         results = rs\<rparr>))))"
proof (cases "data body = None \<or> contextId body = None \<or> contextId body = Some []")
  case True
  from handler_no_run [OF this, of fetch parser] assms show ?thesis by auto
next
  case False
  then obtain rows c where b: "data body = Some rows" "contextId body = Some c" "c \<noteq> []"
    by auto
  obtain res tr where l: "batchLoop fetch parser (chunksOf 50 rows) c 0 [] [] = (res, tr)"
    by (cases "batchLoop fetch parser (chunksOf 50 rows) c 0 [] []")
  show ?thesis
  proof (cases res)
    case (Inl r)
    with assms l b show ?thesis by (simp add: handler_run [OF b])
  next
    case (Inr rs)
    with assms l b show ?thesis by (auto simp: handler_run [OF b])
  qed
qed

text \<open>The handler always replies: the only loop that could run forever is called with 50.\<close>

lemma handler_returns: "\<exists>reply trace. handler fetch parser body = Some (reply, trace)"
proof (cases "data body = None \<or> contextId body = None \<or> contextId body = Some []")
  case True
  from handler_no_run [OF this, of fetch parser] show ?thesis by blast
next
  case False
  then obtain rows c where b: "data body = Some rows" "contextId body = Some c" "c \<noteq> []"
    by auto
  obtain res tr where l: "batchLoop fetch parser (chunksOf 50 rows) c 0 [] [] = (res, tr)"
    by (cases "batchLoop fetch parser (chunksOf 50 rows) c 0 [] []")
  then show ?thesis by (cases res) (simp_all add: handler_run [OF b])
qed

lemma handler_returning_batch:
  assumes h: "handler fetch parser body = Some (reply, trace)"
    and ev: "Fetch j xmlBody \<in> set trace"
    and ret: "\<And>chunks c. buildSoapEnvelope (chunks ! j) c = Inr xmlBody \<Longrightarrow>
        snd (processBatch fetch parser chunks c j) = Return r"
  shows "reply = r \<and> (\<forall>k b. Fetch k b \<in> set trace \<longrightarrow> k \<le> j) \<and> last trace = Fetch j xmlBody"
proof -
  from handler_cases [OF h] ev obtain rows c res
    where l: "batchLoop fetch parser (chunksOf 50 rows) c 0 [] [] = (res, trace)"
      and res: "res = Inl reply \<or> (\<exists>rs. res = Inr rs)"
    by auto
  from batchLoop_trace [OF l] obtain new
    where new: "trace = [] @ new"
      and inv: "\<And>k b. Fetch k b \<in> set new \<Longrightarrow>
          0 \<le> k \<and> buildSoapEnvelope (chunksOf 50 rows ! k) c = Inr b
          \<and> (\<forall>r. snd (processBatch fetch parser (chunksOf 50 rows) c k) = Return r \<longrightarrow>
                res = Inl r \<and> (\<forall>k' b'. Fetch k' b' \<in> set new \<longrightarrow> k' \<le> k)
                \<and> last new = Fetch k b)"
    by blast
  from new have t: "new = trace" by simp
  from inv [of j xmlBody] ev
  have b: "buildSoapEnvelope (chunksOf 50 rows ! j) c = Inr xmlBody"
    and f: "\<forall>r. snd (processBatch fetch parser (chunksOf 50 rows) c j) = Return r \<longrightarrow>
      res = Inl r \<and> (\<forall>k' b'. Fetch k' b' \<in> set trace \<longrightarrow> k' \<le> j) \<and> last trace = Fetch j xmlBody"
    by (simp_all add: t)
  from f ret [OF b]
  have "res = Inl r \<and> (\<forall>k' b'. Fetch k' b' \<in> set trace \<longrightarrow> k' \<le> j) \<and> last trace = Fetch j xmlBody"
    by blast
  with res show ?thesis by auto
qed

text \<open>
  Claim C10. With an empty \<^verbatim>\<open>data\<close> array and a non-empty context identifier there are
  no chunks, nothing is sent, and the reply is the summary with status 200, no results,
  \<^verbatim>\<open>totalBatches\<close> 0 and \<^verbatim>\<open>success\<close> false.
\<close>

theorem empty_records_give_empty_summary:
  assumes "c \<noteq> []"
  shows "chunkArray ([] :: row list) 50 = Some []
    \<and> handler fetch parser \<lparr>data = Some [], contextId = Some c\<rparr>
      = Some ((200, SummaryBody \<lparr>overallSuccess = False, totalBatches = 0, totalItems = 0,
                                 successfulBatches = 0, results = []\<rparr>), [])"
  using assms by (simp add: handler_def chunkArray_Nil batchLoop_done)

text \<open>
  The run on no records under the context identifier \<^verbatim>\<open>CTX\<close>.
\<close>

theorem empty_records_give_empty_summary_witness:
  "''CTX'' \<noteq> [] \<and> handler (\<lambda>i b. Rejects \<lparr>name = ''AbortError'', code = None, message = []\<rparr>)
       (\<lambda>t. Inr (Some t)) \<lparr>data = Some [], contextId = Some ''CTX''\<rparr>
     = Some ((200, SummaryBody \<lparr>overallSuccess = False, totalBatches = 0, totalItems = 0,
                                successfulBatches = 0, results = []\<rparr>), [])"
proof -
  have h: "''CTX'' \<noteq> []" by simp
  from empty_records_give_empty_summary [OF h] h show ?thesis by blast
qed

text \<open>
  Claim C2, as the code has it. The catch block takes a rejection for a timeout when
  its name is \<^verbatim>\<open>AbortError\<close> (the 30 second timer fired), and for an unavailable service
  only when its code is \<^verbatim>\<open>ENOTFOUND\<close> or \<^verbatim>\<open>ECONNREFUSED\<close>. When the request of batch
  \<open>j\<close> was sent and \<^verbatim>\<open>fetch\<close> rejected with one of these, the reply of the run is the 408
  or 503 error object naming batch \<open>j + 1\<close>, that request is the last effect of the run,
  and no request of a later batch was sent.
\<close>

theorem fatal_batch_aborts_run:
  assumes "handler fetch parser body = Some (reply, trace)"
    and "Fetch j xmlBody \<in> set trace"
    and "fetch j xmlBody = Rejects e"
    and "name e = ''AbortError'' \<or> code e = Some ''ENOTFOUND'' \<or> code e = Some ''ECONNREFUSED''"
  shows "reply =
      (if name e = ''AbortError''
       then (408, ErrorBody ''Request timeout''
               (Some (''Batch '' @ decimal (j + 1) @ '' timed out after 30 seconds'')) (Some (j + 1)))
       else (503, ErrorBody ''Service unavailable''
               (Some (''Cannot connect to SOAP service: '' @ message e)) (Some (j + 1))))
    \<and> (\<forall>k b. Fetch k b \<in> set trace \<longrightarrow> k \<le> j)
    \<and> last trace = Fetch j xmlBody"
proof (rule handler_returning_batch [OF assms(1,2)])
  fix chunks c
  assume "buildSoapEnvelope (chunks ! j) c = Inr xmlBody"
  with assms(3,4) show "snd (processBatch fetch parser chunks c j) = Return
      (if name e = ''AbortError''
       then (408, ErrorBody ''Request timeout''
               (Some (''Batch '' @ decimal (j + 1) @ '' timed out after 30 seconds'')) (Some (j + 1)))
       else (503, ErrorBody ''Service unavailable''
               (Some (''Cannot connect to SOAP service: '' @ message e)) (Some (j + 1))))"
    by (auto simp: processBatch_def tryBatch_def catchBatch_def)
qed

text \<open>
  Claim C1, as the code has it. When the request of batch \<open>j\<close> was sent and the response
  is not \<^verbatim>\<open>ok\<close>, the handler returns at once: the reply has the status of the response and
  an error object with the status code, the status text, the body text and the batch
  number \<open>j + 1\<close>; that request is the last effect of the run and no later batch is
  attempted.
\<close>

theorem remote_error_aborts_run:
  assumes "handler fetch parser body = Some (reply, trace)"
    and "Fetch j xmlBody \<in> set trace"
    and "fetch j xmlBody = Resolves response"
    and "\<not> ok response"
  shows "reply =
      (responseStatus response,
       ErrorBody (''SOAP service returned '' @ decimal (responseStatus response) @ '': ''
                  @ statusText response)
         (Some (case responseText response of
                  Inl m \<Rightarrow> ''Could not read error response: '' @ m
                | Inr t \<Rightarrow> t))
         (Some (j + 1)))
    \<and> (\<forall>k b. Fetch k b \<in> set trace \<longrightarrow> k \<le> j)
    \<and> last trace = Fetch j xmlBody"
proof (rule handler_returning_batch [OF assms(1,2)])
  fix chunks c
  assume "buildSoapEnvelope (chunks ! j) c = Inr xmlBody"
  with assms(3,4) show "snd (processBatch fetch parser chunks c j) = Return
      (responseStatus response,
       ErrorBody (''SOAP service returned '' @ decimal (responseStatus response) @ '': ''
                  @ statusText response)
         (Some (case responseText response of
                  Inl m \<Rightarrow> ''Could not read error response: '' @ m
                | Inr t \<Rightarrow> t))
         (Some (j + 1)))"
    by (simp add: processBatch_def tryBatch_def)
qed

text \<open>
  Claim C4. When the handler replies with the summary, the status is 200;
  \<^verbatim>\<open>success\<close> holds exactly when some entry of \<^verbatim>\<open>results\<close> has \<^verbatim>\<open>success\<close>;
  \<^verbatim>\<open>successfulBatches\<close> counts those entries; \<^verbatim>\<open>totalBatches\<close> is the number of chunks
  and \<^verbatim>\<open>totalItems\<close> the number of records; and \<^verbatim>\<open>results\<close> has one entry per chunk,
  numbered 1, 2, ... in the order of the chunks, each with the size of its chunk and
  each the entry that the iteration of its batch pushed.
\<close>

theorem summary_counts:
  assumes "handler fetch parser body = Some ((st, SummaryBody s), trace)"
  shows "st = 200
    \<and> overallSuccess s = (\<exists>r \<in> set (results s). success r)
    \<and> successfulBatches s = length (filter success (results s))
    \<and> (\<exists>rows c chunks. data body = Some rows \<and> contextId body = Some c
          \<and> chunkArray rows 50 = Some chunks
          \<and> totalBatches s = length chunks
          \<and> totalItems s = length rows
          \<and> length (results s) = length chunks
          \<and> map batch (results s) = [1..<length chunks + 1]
          \<and> map itemCount (results s) = map length chunks
          \<and> (\<forall>k < length chunks.
                snd (processBatch fetch parser chunks c k) = Push (results s ! k)))"
proof -
  from handler_cases [OF assms] obtain rows c
    where b: "data body = Some rows" "contextId body = Some c"
      and alt: "batchLoop fetch parser (chunksOf 50 rows) c 0 [] [] = (Inl (st, SummaryBody s), trace)
        \<or> (\<exists>rs. batchLoop fetch parser (chunksOf 50 rows) c 0 [] [] = (Inr rs, trace)
              \<and> (st, SummaryBody s) = (200, SummaryBody
                  \<lparr>overallSuccess = list_ex success rs,
                   totalBatches = length (chunksOf 50 rows),
                   totalItems = length rows,
                   successfulBatches = length (filter success rs),
                   results = rs\<rparr>))"
    by auto
  have "batchLoop fetch parser (chunksOf 50 rows) c 0 [] [] \<noteq> (Inl (st, SummaryBody s), trace)"
    using batchLoop_returned [of fetch parser "chunksOf 50 rows" c 0 "[]" "[]" "(st, SummaryBody s)" trace]
    by auto
  with alt obtain rs
    where l: "batchLoop fetch parser (chunksOf 50 rows) c 0 [] [] = (Inr rs, trace)"
      and st: "st = 200"
      and s: "s = \<lparr>overallSuccess = list_ex success rs,
                   totalBatches = length (chunksOf 50 rows),
                   totalItems = length rows,
                   successfulBatches = length (filter success rs),
                   results = rs\<rparr>"
    by auto
  let ?chunks = "chunksOf 50 rows"
  have ca: "chunkArray rows 50 = Some ?chunks" using chunkArray_pos [of 50 rows] by simp
  from batchLoop_results [OF l]
  have len: "length rs = length ?chunks"
    and each: "\<And>k. k < length ?chunks \<Longrightarrow>
      snd (processBatch fetch parser ?chunks c k) = Push (rs ! k)"
    by auto
  have fields: "\<And>k. k < length ?chunks \<Longrightarrow>
      batch (rs ! k) = k + 1 \<and> itemCount (rs ! k) = length (?chunks ! k)"
  proof -
    fix k
    assume "k < length ?chunks"
    from each [OF this] obtain evs
      where "processBatch fetch parser ?chunks c k = (evs, Push (rs ! k))"
      by (cases "processBatch fetch parser ?chunks c k") simp
    then show "batch (rs ! k) = k + 1 \<and> itemCount (rs ! k) = length (?chunks ! k)"
      by (rule processBatch_push)
  qed
  have "map batch rs = map Suc [0..<length ?chunks]"
    by (rule nth_equalityI) (use len fields in auto)
  then have mb: "map batch rs = [1..<length ?chunks + 1]"
    by (simp add: map_Suc_upt del: upt_Suc)
  have mi: "map itemCount rs = map length ?chunks"
    by (rule nth_equalityI) (use len fields in auto)
  have "overallSuccess s = (\<exists>r \<in> set (results s). success r)"
    by (simp add: s list_ex_iff)
  moreover have "successfulBatches s = length (filter success (results s))" by (simp add: s)
  moreover have "\<exists>rows c chunks. data body = Some rows \<and> contextId body = Some c
          \<and> chunkArray rows 50 = Some chunks
          \<and> totalBatches s = length chunks
          \<and> totalItems s = length rows
          \<and> length (results s) = length chunks
          \<and> map batch (results s) = [1..<length chunks + 1]
          \<and> map itemCount (results s) = map length chunks
          \<and> (\<forall>k < length chunks.
                snd (processBatch fetch parser chunks c k) = Push (results s ! k))"
    using b ca len mb mi each by (intro exI [of _ rows] exI [of _ c] exI [of _ ?chunks]) (simp add: s)
  ultimately show ?thesis using st by blast
qed

section \<open>Runs of the handler\<close>

lemma mapRows_replicate: "f r = Inr x \<Longrightarrow> mapRows f (replicate n r) = Inr (replicate n x)"
  by (induction n) simp_all

lemma requestElement_sampleRow: "requestElement ''CTX'' sampleRow = Inr (element ''CTX'' ''E1'' ''T1'')"
  by (simp add: requestElement_def trimField_def sampleRow_def trim_eval)

lemma buildSoapEnvelope_sample: "buildSoapEnvelope (replicate n sampleRow) ''CTX'' = Inr (sampleBody n)"
  by (simp add: buildSoapEnvelope_def mapRows_replicate [where f = "requestElement ''CTX''", OF requestElement_sampleRow] sampleBody_def)

lemma chunksOf_120: "chunksOf 50 (replicate 120 r) = [replicate 50 r, replicate 50 r, replicate 20 r]"
  by (simp add: chunksOf_def upt_conv_Cons)

lemma chunksOf_51: "chunksOf 50 (r # replicate 50 r') = [r # replicate 49 r', [r']]"
  by (simp add: chunksOf_def upt_conv_Cons)

lemmas run_eval = handler_run batchLoop.simps processBatch_def tryBatch_def catchBatch_def
  ok_def answer_def abortError_def buildSoapEnvelope_sample

lemma run_all_ok:
  "handler (\<lambda>i b. answer 200 ''OK'' ''<ok/>'') (\<lambda>t. Inr (Some ()))
      \<lparr>data = Some (replicate 120 sampleRow), contextId = Some ''CTX''\<rparr>
   = Some ((200, SummaryBody
       \<lparr>overallSuccess = True, totalBatches = 3, totalItems = 120, successfulBatches = 3,
        results = [Succeeded 1 (StatusCode 200) ''<ok/>'' (Some ()) 50 True,
                   Succeeded 2 (StatusCode 200) ''<ok/>'' (Some ()) 50 True,
                   Succeeded 3 (StatusCode 200) ''<ok/>'' (Some ()) 20 True]\<rparr>),
      [Fetch 0 (sampleBody 50), Sleep 10000, Fetch 1 (sampleBody 50), Sleep 10000,
       Fetch 2 (sampleBody 20)])"
  by (simp add: run_eval chunksOf_120)

lemma run_timeout:
  "handler (\<lambda>i b. if i = 1 then Rejects abortError else answer 200 ''OK'' ''<ok/>'') (\<lambda>t. Inr (Some ()))
      \<lparr>data = Some (replicate 120 sampleRow), contextId = Some ''CTX''\<rparr>
   = Some ((408, ErrorBody ''Request timeout'' (Some ''Batch 2 timed out after 30 seconds'') (Some 2)),
      [Fetch 0 (sampleBody 50), Sleep 10000, Fetch 1 (sampleBody 50)])"
  by (simp add: run_eval chunksOf_120 decimal.simps)

lemma run_unreachable:
  "handler (\<lambda>i b. if i = 0
               then Rejects \<lparr>name = ''FetchError'', code = Some ''EHOSTUNREACH'',
                             message = ''connect EHOSTUNREACH''\<rparr>
               else answer 200 ''OK'' ''<ok/>'') (\<lambda>t. Inr (Some ()))
      \<lparr>data = Some (replicate 120 sampleRow), contextId = Some ''CTX''\<rparr>
   = Some ((200, SummaryBody
       \<lparr>overallSuccess = True, totalBatches = 3, totalItems = 120, successfulBatches = 2,
        results = [Failed 1 StatusError ''connect EHOSTUNREACH'' 50 False,
                   Succeeded 2 (StatusCode 200) ''<ok/>'' (Some ()) 50 True,
                   Succeeded 3 (StatusCode 200) ''<ok/>'' (Some ()) 20 True]\<rparr>),
      [Fetch 0 (sampleBody 50), Fetch 1 (sampleBody 50), Sleep 10000, Fetch 2 (sampleBody 20)])"
  by (simp add: run_eval chunksOf_120)

lemma run_500:
  "handler (\<lambda>i b. answer 500 ''Internal Server Error'' ''boom'') (\<lambda>t. Inr (Some ()))
      \<lparr>data = Some (replicate 120 sampleRow), contextId = Some ''CTX''\<rparr>
   = Some ((500, ErrorBody ''SOAP service returned 500: Internal Server Error'' (Some ''boom'') (Some 1)),
      [Fetch 0 (sampleBody 50)])"
  by (simp add: run_eval chunksOf_120 decimal.simps)

lemma processBatch_parser:
  fixes parser :: "'p xmlParser" and parser' :: "'q xmlParser"
  shows "fst (processBatch fetch parser chunks c i) = fst (processBatch fetch parser' chunks c i)
    \<and> ((\<exists>st e d b. snd (processBatch fetch parser chunks c i) = Return (st, ErrorBody e d b)
            \<and> snd (processBatch fetch parser' chunks c i) = Return (st, ErrorBody e d b))
        \<or> (\<exists>x x'. snd (processBatch fetch parser chunks c i) = Push x
            \<and> snd (processBatch fetch parser' chunks c i) = Push x'
            \<and> forgetParsed x = forgetParsed x'))"
  by (auto simp: processBatch_def tryBatch_def catchBatch_def Let_def forgetParsed_def
      split: sum.splits fetchOutcome.splits)

lemma success_forgetParsed: "success (forgetParsed x) = success x"
  by (cases x) (simp_all add: forgetParsed_def)

lemma list_ex_forgetParsed: "list_ex success (map forgetParsed xs) = list_ex success xs"
  by (induction xs) (simp_all add: success_forgetParsed)

lemma filter_forgetParsed:
  "length (filter success (map forgetParsed xs)) = length (filter success xs)"
  by (induction xs) (simp_all add: success_forgetParsed)

lemma batchLoop_parser:
  fixes parser :: "'p xmlParser" and parser' :: "'q xmlParser"
  assumes "map forgetParsed rs = map forgetParsed rs'"
  shows "snd (batchLoop fetch parser chunks c i rs trace) = snd (batchLoop fetch parser' chunks c i rs' trace)
    \<and> ((\<exists>st e d b. fst (batchLoop fetch parser chunks c i rs trace) = Inl (st, ErrorBody e d b)
            \<and> fst (batchLoop fetch parser' chunks c i rs' trace) = Inl (st, ErrorBody e d b))
        \<or> (\<exists>xs xs'. fst (batchLoop fetch parser chunks c i rs trace) = Inr xs
            \<and> fst (batchLoop fetch parser' chunks c i rs' trace) = Inr xs'
            \<and> map forgetParsed xs = map forgetParsed xs'))"
  using assms
proof (induction "length chunks - i" arbitrary: i rs rs' trace)
  case 0
  then show ?case by (simp add: batchLoop_done)
next
  case (Suc n)
  then have i: "i < length chunks" by simp
  obtain evs st where p: "processBatch fetch parser chunks c i = (evs, st)"
    by (cases "processBatch fetch parser chunks c i")
  obtain evs' st' where p': "processBatch fetch parser' chunks c i = (evs', st')"
    by (cases "processBatch fetch parser' chunks c i")
  from processBatch_parser [of fetch parser chunks c i parser'] p p'
  have evs: "evs' = evs"
    and alt: "(\<exists>s e d b. st = Return (s, ErrorBody e d b) \<and> st' = Return (s, ErrorBody e d b))
        \<or> (\<exists>x x'. st = Push x \<and> st' = Push x' \<and> forgetParsed x = forgetParsed x')"
    by simp_all
  from alt show ?case
  proof
    assume "\<exists>s e d b. st = Return (s, ErrorBody e d b) \<and> st' = Return (s, ErrorBody e d b)"
    then obtain s e d b where "st = Return (s, ErrorBody e d b)" "st' = Return (s, ErrorBody e d b)"
      by blast
    with p p' evs i show ?thesis by (simp add: batchLoop_return)
  next
    assume "\<exists>x x'. st = Push x \<and> st' = Push x' \<and> forgetParsed x = forgetParsed x'"
    then obtain x x' where x: "st = Push x" "st' = Push x'" "forgetParsed x = forgetParsed x'"
      by blast
    from Suc.hyps(2) have n: "n = length chunks - (i + 1)" by simp
    from x(3) Suc.prems have m: "map forgetParsed (rs @ [x]) = map forgetParsed (rs' @ [x'])"
      by simp
    from Suc.hyps(1) [OF n m, of "trace @ evs"] p p' evs i x(1,2)
    show ?thesis by (simp add: batchLoop_push)
  qed
qed

lemma handler_parser:
  fixes parser :: "'p xmlParser" and parser' :: "'q xmlParser"
  shows "map_option (\<lambda>(r, tr). (forgetParsedReply r, tr)) (handler fetch parser body)
       = map_option (\<lambda>(r, tr). (forgetParsedReply r, tr)) (handler fetch parser' body)"
proof (cases "data body = None \<or> contextId body = None \<or> contextId body = Some []")
  case True
  then show ?thesis
    by (auto simp: handler_def forgetParsedReply_def split: option.splits)
next
  case False
  then obtain rows c where b: "data body = Some rows" "contextId body = Some c" "c \<noteq> []"
    by auto
  obtain res tr where l: "batchLoop fetch parser (chunksOf 50 rows) c 0 [] [] = (res, tr)"
    by (cases "batchLoop fetch parser (chunksOf 50 rows) c 0 [] []")
  obtain res' tr' where l': "batchLoop fetch parser' (chunksOf 50 rows) c 0 [] [] = (res', tr')"
    by (cases "batchLoop fetch parser' (chunksOf 50 rows) c 0 [] []")
  from batchLoop_parser [of "[]" "[]" fetch parser "chunksOf 50 rows" c 0 "[]" parser'] l l'
  have tr: "tr' = tr"
    and alt: "(\<exists>st e d b. res = Inl (st, ErrorBody e d b) \<and> res' = Inl (st, ErrorBody e d b))
        \<or> (\<exists>xs xs'. res = Inr xs \<and> res' = Inr xs' \<and> map forgetParsed xs = map forgetParsed xs')"
    by simp_all
  from alt show ?thesis
  proof
    assume "\<exists>st e d b. res = Inl (st, ErrorBody e d b) \<and> res' = Inl (st, ErrorBody e d b)"
    then obtain st e d b'
      where "res = Inl (st, ErrorBody e d b')" "res' = Inl (st, ErrorBody e d b')"
      by blast
    with l l' tr show ?thesis by (simp add: handler_run [OF b] forgetParsedReply_def)
  next
    assume "\<exists>xs xs'. res = Inr xs \<and> res' = Inr xs' \<and> map forgetParsed xs = map forgetParsed xs'"
    then obtain xs xs'
      where x: "res = Inr xs" "res' = Inr xs'" "map forgetParsed xs = map forgetParsed xs'"
      by blast
    have "list_ex success xs = list_ex success xs'"
      using arg_cong [OF x(3), of "list_ex success"] by (simp only: list_ex_forgetParsed)
    moreover have "length (filter success xs) = length (filter success xs')"
      using arg_cong [OF x(3), of "\<lambda>ys. length (filter success ys)"]
      by (simp only: filter_forgetParsed)
    ultimately show ?thesis
      using x l l' tr by (simp add: handler_run [OF b] forgetParsedReply_def)
  qed
qed

text \<open>
  Claim C7. When the response of batch \<open>i\<close> is \<^verbatim>\<open>ok\<close>, its body is read and the parser
  rejects it, the iteration pushes an entry with \<^verbatim>\<open>success\<close> true and
  \<^verbatim>\<open>parsedResponse\<close> null. What the parser does never changes anything else: for any two
  parsers the runs on the same request send the same requests, take the same pauses and
  give the same reply, up to the \<^verbatim>\<open>parsedResponse\<close> fields.
\<close>

theorem parse_failure_is_not_fatal:
  fixes parser :: "'p xmlParser" and parser' :: "'q xmlParser"
  assumes "buildSoapEnvelope (chunks ! i) c = Inr xmlBody"
    and "fetch i xmlBody = Resolves response"
    and "ok response"
    and "responseText response = Inr text"
    and "parser text = Inl m"
  shows "processBatch fetch parser chunks c i
      = (Fetch i xmlBody # (if int i < int (length chunks) - 1 then [Sleep 10000] else []),
         Push (Succeeded (i + 1) (StatusCode (responseStatus response)) text None
                 (length (chunks ! i)) True))
    \<and> map_option (\<lambda>(r, tr). (forgetParsedReply r, tr)) (handler fetch parser body)
      = map_option (\<lambda>(r, tr). (forgetParsedReply r, tr)) (handler fetch parser' body)"
proof
  show "processBatch fetch parser chunks c i
      = (Fetch i xmlBody # (if int i < int (length chunks) - 1 then [Sleep 10000] else []),
         Push (Succeeded (i + 1) (StatusCode (responseStatus response)) text None
                 (length (chunks ! i)) True))"
    using assms by (simp add: processBatch_def tryBatch_def)
  show "map_option (\<lambda>(r, tr). (forgetParsedReply r, tr)) (handler fetch parser body)
      = map_option (\<lambda>(r, tr). (forgetParsedReply r, tr)) (handler fetch parser' body)"
    by (rule handler_parser)
qed

lemma sampleBody_1: "buildSoapEnvelope [sampleRow] ''CTX'' = Inr (sampleBody 1)"
  using buildSoapEnvelope_sample [of 1] by simp

text \<open>
  Claim C1 as stated fails. On 120 records, with a remote service that answers 500, the
  reply is the error object with status 500 and not a summary with a failed entry, and
  only the first of the three batches is sent.
\<close>

theorem remote_error_counterexample:
  "handler (\<lambda>i b. answer 500 ''Internal Server Error'' ''boom'') (\<lambda>t. Inr (Some ()))
      \<lparr>data = Some (replicate 120 sampleRow), contextId = Some ''CTX''\<rparr>
   = Some ((500, ErrorBody ''SOAP service returned 500: Internal Server Error'' (Some ''boom'') (Some 1)),
      [Fetch 0 (sampleBody 50)])"
  by (rule run_500)

text \<open>
  The same run satisfies the hypotheses of the corrected statement.
\<close>

theorem remote_error_aborts_run_witness:
  "handler (\<lambda>i b. answer 500 ''Internal Server Error'' ''boom'') (\<lambda>t. Inr (Some ()))
      \<lparr>data = Some (replicate 120 sampleRow), contextId = Some ''CTX''\<rparr>
   = Some ((500, ErrorBody ''SOAP service returned 500: Internal Server Error'' (Some ''boom'') (Some 1)),
      [Fetch 0 (sampleBody 50)])
   \<and> Fetch 0 (sampleBody 50) \<in> set [Fetch 0 (sampleBody 50)]
   \<and> answer 500 ''Internal Server Error'' ''boom''
       = Resolves \<lparr>responseStatus = 500, statusText = ''Internal Server Error'', responseText = Inr ''boom''\<rparr>
   \<and> \<not> ok \<lparr>responseStatus = 500, statusText = ''Internal Server Error'', responseText = Inr ''boom''\<rparr>
   \<and> last [Fetch 0 (sampleBody 50)] = Fetch 0 (sampleBody 50)"
proof -
  have h2: "Fetch 0 (sampleBody 50) \<in> set [Fetch 0 (sampleBody 50)]" by simp
  have h3: "(\<lambda>i b. answer 500 ''Internal Server Error'' ''boom'') 0 (sampleBody 50)
      = Resolves \<lparr>responseStatus = 500, statusText = ''Internal Server Error'', responseText = Inr ''boom''\<rparr>"
    by (simp add: answer_def)
  have h4: "\<not> ok \<lparr>responseStatus = 500, statusText = ''Internal Server Error'', responseText = Inr ''boom''\<rparr>"
    by (simp add: ok_def)
  from remote_error_aborts_run [OF run_500 h2 h3 h4]
  have "last [Fetch 0 (sampleBody 50)] = Fetch 0 (sampleBody 50)" by blast
  with run_500 h2 h3 h4 show ?thesis by simp
qed

text \<open>
  Claim C2 as stated fails. On 120 records, the first request is rejected because the
  host cannot be reached (code \<^verbatim>\<open>EHOSTUNREACH\<close>): the transport did not reach the
  endpoint, yet the batch is pushed as a failed entry, the second and third batches are
  sent, and the reply is the summary.
\<close>

theorem unreachable_host_counterexample:
  "handler (\<lambda>i b. if i = 0
               then Rejects \<lparr>name = ''FetchError'', code = Some ''EHOSTUNREACH'',
                             message = ''connect EHOSTUNREACH''\<rparr>
               else answer 200 ''OK'' ''<ok/>'') (\<lambda>t. Inr (Some ()))
      \<lparr>data = Some (replicate 120 sampleRow), contextId = Some ''CTX''\<rparr>
   = Some ((200, SummaryBody
       \<lparr>overallSuccess = True, totalBatches = 3, totalItems = 120, successfulBatches = 2,
        results = [Failed 1 StatusError ''connect EHOSTUNREACH'' 50 False,
                   Succeeded 2 (StatusCode 200) ''<ok/>'' (Some ()) 50 True,
                   Succeeded 3 (StatusCode 200) ''<ok/>'' (Some ()) 20 True]\<rparr>),
      [Fetch 0 (sampleBody 50), Fetch 1 (sampleBody 50), Sleep 10000, Fetch 2 (sampleBody 20)])"
  by (rule run_unreachable)

text \<open>
  The example of the specification: 120 records, and the second of the three requests
  times out. The third batch is not sent.
\<close>

theorem fatal_batch_aborts_run_witness:
  "handler (\<lambda>i b. if i = 1 then Rejects abortError else answer 200 ''OK'' ''<ok/>'') (\<lambda>t. Inr (Some ()))
      \<lparr>data = Some (replicate 120 sampleRow), contextId = Some ''CTX''\<rparr>
   = Some ((408, ErrorBody ''Request timeout'' (Some ''Batch 2 timed out after 30 seconds'') (Some 2)),
      [Fetch 0 (sampleBody 50), Sleep 10000, Fetch 1 (sampleBody 50)])
   \<and> Fetch 1 (sampleBody 50) \<in> set [Fetch 0 (sampleBody 50), Sleep 10000, Fetch 1 (sampleBody 50)]
   \<and> name abortError = ''AbortError''
   \<and> last [Fetch 0 (sampleBody 50), Sleep 10000, Fetch 1 (sampleBody 50)] = Fetch 1 (sampleBody 50)"
proof -
  have h2: "Fetch 1 (sampleBody 50) \<in> set [Fetch 0 (sampleBody 50), Sleep 10000, Fetch 1 (sampleBody 50)]"
    by simp
  have h3: "(\<lambda>i b. if i = 1 then Rejects abortError else answer 200 ''OK'' ''<ok/>'') 1 (sampleBody 50)
      = Rejects abortError"
    by simp
  have n: "name abortError = ''AbortError''" by (simp add: abortError_def)
  then have h4: "name abortError = ''AbortError'' \<or> code abortError = Some ''ENOTFOUND''
      \<or> code abortError = Some ''ECONNREFUSED''"
    by simp
  from fatal_batch_aborts_run [OF run_timeout h2 h3 h4]
  have "last [Fetch 0 (sampleBody 50), Sleep 10000, Fetch 1 (sampleBody 50)] = Fetch 1 (sampleBody 50)"
    by blast
  with run_timeout h2 n show ?thesis by simp
qed

text \<open>
  The end-to-end example of the specification: 120 records give chunks of 50, 50 and 20,
  and all three batches succeed.
\<close>

theorem summary_counts_witness:
  "handler (\<lambda>i b. answer 200 ''OK'' ''<ok/>'') (\<lambda>t. Inr (Some ()))
      \<lparr>data = Some (replicate 120 sampleRow), contextId = Some ''CTX''\<rparr>
   = Some ((200, SummaryBody
       \<lparr>overallSuccess = True, totalBatches = 3, totalItems = 120, successfulBatches = 3,
        results = [Succeeded 1 (StatusCode 200) ''<ok/>'' (Some ()) 50 True,
                   Succeeded 2 (StatusCode 200) ''<ok/>'' (Some ()) 50 True,
                   Succeeded 3 (StatusCode 200) ''<ok/>'' (Some ()) 20 True]\<rparr>),
      [Fetch 0 (sampleBody 50), Sleep 10000, Fetch 1 (sampleBody 50), Sleep 10000,
       Fetch 2 (sampleBody 20)])
   \<and> (3::nat) = length (filter success
         [Succeeded 1 (StatusCode 200) ''<ok/>'' (Some ()) 50 True,
          Succeeded 2 (StatusCode 200) ''<ok/>'' (Some ()) 50 True,
          Succeeded 3 (StatusCode 200) ''<ok/>'' (Some ()) 20 True])"
proof -
  from summary_counts [OF run_all_ok]
  have "(3::nat) = length (filter success
         [Succeeded 1 (StatusCode 200) ''<ok/>'' (Some ()) 50 True,
          Succeeded 2 (StatusCode 200) ''<ok/>'' (Some ()) 50 True,
          Succeeded 3 (StatusCode 200) ''<ok/>'' (Some ()) 20 True])"
    by simp
  with run_all_ok show ?thesis by (rule conjI)
qed

text \<open>
  Claim C6 as stated fails. On 51 records of which the first has no \<^verbatim>\<open>AuthToken\<close>, the
  first batch is pushed as a failed entry, the second batch is sent and succeeds, and the
  reply is the summary. A record whose \<^verbatim>\<open>AuthToken\<close> is blank gives an element with an
  empty attribute.
\<close>

theorem missing_field_counterexample:
  "handler (\<lambda>i b. answer 200 ''OK'' ''<ok/>'') (\<lambda>t. Inr (Some ()))
      \<lparr>data = Some ([''EnvelopeId'' \<mapsto> JString ''E0''] # replicate 50 sampleRow),
       contextId = Some ''CTX''\<rparr>
   = Some ((200, SummaryBody
       \<lparr>overallSuccess = True, totalBatches = 2, totalItems = 51, successfulBatches = 1,
        results = [Failed 1 StatusError ''Cannot read properties of undefined (reading 'trim')'' 50 False,
                   Succeeded 2 (StatusCode 200) ''<ok/>'' (Some ()) 1 True]\<rparr>),
      [Fetch 1 (sampleBody 1)])
   \<and> buildSoapEnvelope [[''EnvelopeId'' \<mapsto> JString ''E1'', ''AuthToken'' \<mapsto> JString ''   '']] ''CTX''
     = Inr (envelopeHead @ element ''CTX'' ''E1'' [] @ envelopeTail)"
proof
  have b: "buildSoapEnvelope ([''EnvelopeId'' \<mapsto> JString ''E0''] # replicate 49 sampleRow) ''CTX''
      = Inl (typeError ''Cannot read properties of undefined (reading 'trim')'')"
    by (simp add: buildSoapEnvelope_def requestElement_def trimField_def trim_eval)
  show "handler (\<lambda>i b. answer 200 ''OK'' ''<ok/>'') (\<lambda>t. Inr (Some ()))
      \<lparr>data = Some ([''EnvelopeId'' \<mapsto> JString ''E0''] # replicate 50 sampleRow),
       contextId = Some ''CTX''\<rparr>
   = Some ((200, SummaryBody
       \<lparr>overallSuccess = True, totalBatches = 2, totalItems = 51, successfulBatches = 1,
        results = [Failed 1 StatusError ''Cannot read properties of undefined (reading 'trim')'' 50 False,
                   Succeeded 2 (StatusCode 200) ''<ok/>'' (Some ()) 1 True]\<rparr>),
      [Fetch 1 (sampleBody 1)])"
    by (simp add: run_eval chunksOf_51 b sampleBody_1 typeError_def)
  show "buildSoapEnvelope [[''EnvelopeId'' \<mapsto> JString ''E1'', ''AuthToken'' \<mapsto> JString ''   '']] ''CTX''
     = Inr (envelopeHead @ element ''CTX'' ''E1'' [] @ envelopeTail)"
    by (simp add: buildSoapEnvelope_def requestElement_def trimField_def trim_eval)
qed

text \<open>
  A chunk with a record without \<^verbatim>\<open>AuthToken\<close>, and a chunk with the sample record.
\<close>

theorem missing_field_recorded_as_failed_batch_witness:
  "list_ex (\<lambda>r. \<not> stringField r ''EnvelopeId'' \<or> \<not> stringField r ''AuthToken'')
      ([[[''EnvelopeId'' \<mapsto> JString ''E0'']]] ! 0)
   \<and> processBatch (\<lambda>i b. answer 200 ''OK'' ''<ok/>'') (\<lambda>t. Inr (Some ()))
        [[[''EnvelopeId'' \<mapsto> JString ''E0'']]] ''CTX'' 0
      = ([], Push (Failed 1 StatusError ''Cannot read properties of undefined (reading 'trim')'' 1 False))
   \<and> list_all (\<lambda>r. stringField r ''EnvelopeId'' \<and> stringField r ''AuthToken'') ([[sampleRow]] ! 0)
   \<and> (\<exists>doc. buildSoapEnvelope ([[sampleRow]] ! 0) ''CTX'' = Inr doc)"
proof -
  have h1: "list_ex (\<lambda>r. \<not> stringField r ''EnvelopeId'' \<or> \<not> stringField r ''AuthToken'')
      ([[[''EnvelopeId'' \<mapsto> JString ''E0'']]] ! 0)"
    by (simp add: stringField_def)
  have h2: "list_all (\<lambda>r. stringField r ''EnvelopeId'' \<and> stringField r ''AuthToken'') ([[sampleRow]] ! 0)"
    by (simp add: stringField_def sampleRow_def)
  have b: "buildSoapEnvelope ([[[''EnvelopeId'' \<mapsto> JString ''E0'']]] ! 0) ''CTX''
      = Inl (typeError ''Cannot read properties of undefined (reading 'trim')'')"
    by (simp add: buildSoapEnvelope_def requestElement_def trimField_def trim_eval)
  note t = missing_field_recorded_as_failed_batch
    [of "[[[''EnvelopeId'' \<mapsto> JString ''E0'']]]" 0 "''CTX''"
        "\<lambda>i b. answer 200 ''OK'' ''<ok/>''" "\<lambda>t. Inr (Some ())" "[]" "[]"]
  from t [THEN conjunct1] h1 obtain e
    where "buildSoapEnvelope ([[[''EnvelopeId'' \<mapsto> JString ''E0'']]] ! 0) ''CTX'' = Inl e"
      and p: "processBatch (\<lambda>i b. answer 200 ''OK'' ''<ok/>'') (\<lambda>t. Inr (Some ()))
        [[[''EnvelopeId'' \<mapsto> JString ''E0'']]] ''CTX'' 0
        = ([], Push (Failed (0 + 1) StatusError (message e)
             (length ([[[''EnvelopeId'' \<mapsto> JString ''E0'']]] ! 0)) False))"
    by blast
  with b have "e = typeError ''Cannot read properties of undefined (reading 'trim')''" by simp
  with p have p': "processBatch (\<lambda>i b. answer 200 ''OK'' ''<ok/>'') (\<lambda>t. Inr (Some ()))
        [[[''EnvelopeId'' \<mapsto> JString ''E0'']]] ''CTX'' 0
      = ([], Push (Failed 1 StatusError ''Cannot read properties of undefined (reading 'trim')'' 1 False))"
    by (simp add: typeError_def)
  from missing_field_recorded_as_failed_batch
    [of "[[sampleRow]]" 0 "''CTX''", THEN conjunct2] h2
  have d: "\<exists>doc. buildSoapEnvelope ([[sampleRow]] ! 0) ''CTX'' = Inr doc" by blast
  from h1 p' h2 d show ?thesis by (intro conjI)
qed

text \<open>
  The example of the specification: status 200 with a body that is not XML.
\<close>

theorem parse_failure_is_not_fatal_witness:
  "buildSoapEnvelope ([[sampleRow]] ! 0) ''CTX'' = Inr (sampleBody 1)
   \<and> answer 200 ''OK'' ''not xml''
       = Resolves \<lparr>responseStatus = 200, statusText = ''OK'', responseText = Inr ''not xml''\<rparr>
   \<and> ok \<lparr>responseStatus = 200, statusText = ''OK'', responseText = Inr ''not xml''\<rparr>
   \<and> processBatch (\<lambda>i b. answer 200 ''OK'' ''not xml'')
        (\<lambda>t. Inl ''Non-whitespace before first tag.'' :: string + unit option)
        [[sampleRow]] ''CTX'' 0
      = ([Fetch 0 (sampleBody 1)], Push (Succeeded 1 (StatusCode 200) ''not xml'' None 1 True))"
proof -
  have h1: "buildSoapEnvelope ([[sampleRow]] ! 0) ''CTX'' = Inr (sampleBody 1)"
    by (simp add: sampleBody_1)
  have h2: "(\<lambda>i b. answer 200 ''OK'' ''not xml'') 0 (sampleBody 1)
      = Resolves \<lparr>responseStatus = 200, statusText = ''OK'', responseText = Inr ''not xml''\<rparr>"
    by (simp add: answer_def)
  have h3: "ok \<lparr>responseStatus = 200, statusText = ''OK'', responseText = Inr ''not xml''\<rparr>"
    by (simp add: ok_def)
  have h4: "responseText \<lparr>responseStatus = 200, statusText = ''OK'', responseText = Inr ''not xml''\<rparr>
      = Inr ''not xml''"
    by simp
  have h5: "(\<lambda>t. Inl ''Non-whitespace before first tag.'' :: string + unit option) ''not xml''
      = Inl ''Non-whitespace before first tag.''"
    by simp
  from parse_failure_is_not_fatal [OF h1 h2 h3 h4 h5, THEN conjunct1]
  have "processBatch (\<lambda>i b. answer 200 ''OK'' ''not xml'')
        (\<lambda>t. Inl ''Non-whitespace before first tag.'' :: string + unit option)
        [[sampleRow]] ''CTX'' 0
      = ([Fetch 0 (sampleBody 1)], Push (Succeeded 1 (StatusCode 200) ''not xml'' None 1 True))"
    by simp
  with h1 h2 h3 show ?thesis by simp
qed

end
